theory Spec2Isabelle
  imports Main "HOL-Library.Word"
begin

unbundle bit_operations_syntax

section \<open>Values shared by the bridge\<close>

text \<open>
  A Node \<open>Buffer\<close> is a sequence of bytes; \<open>char\<close> is the 8-bit byte. A JavaScript
  string is a sequence of UTF-16 code units.
\<close>

type_synonym byte = char
type_synonym Buffer = "byte list"
type_synonym char16 = "16 word"
type_synonym jsstring = "char16 list"

definition LF :: byte where
  "LF = CHR 0x0A"

definition CR16 :: char16 where
  "CR16 = 0x0D"

definition LF16 :: char16 where
  "LF16 = 0x0A"

text \<open>
  What the code throws. \<open>Error msg\<close> is a plain \<open>new Error(msg)\<close>, which has no
  \<open>code\<close> property; \<open>ErrnoException c\<close> is a system error whose \<open>code\<close> is \<open>c\<close>;
  \<open>SyntaxError\<close> is what \<open>JSON.parse\<close> throws and \<open>ZodError\<close> what the schema's
  \<open>parse\<close> throws.
\<close>

datatype error = Error string | ErrnoException string | SyntaxError | ZodError

fun code :: "error \<Rightarrow> string option" where
  "code (ErrnoException c) = Some c"
| "code (Error msg) = None"
| "code SyntaxError = None"
| "code ZodError = None"

text \<open>
  The library functions the framer calls and this repository does not define:
  \<open>Buffer.toString('utf8', ...)\<close>, \<open>JSON.parse\<close> (\<open>None\<close> when it throws),
  \<open>JSONRPCMessageSchema.parse\<close> (\<open>None\<close> when it throws), \<open>JSON.stringify\<close>, and
  the UTF-8 encoding that writing a string to a stream performs. They are parameters
  of the model: \<open>'j\<close> is the type of parsed JSON values, \<open>'m\<close> the type of validated
  messages.
\<close>

record ('j, 'm) runtime =
  toString_utf8 :: "Buffer \<Rightarrow> jsstring"
  JSON_parse :: "jsstring \<Rightarrow> 'j option"
  schema_parse :: "'j \<Rightarrow> 'm option"
  JSON_stringify :: "'m \<Rightarrow> jsstring"
  utf8_encode :: "jsstring \<Rightarrow> Buffer"

section \<open>The framer: class ReadBuffer\<close>

text \<open>The field \<open>buffer: Buffer | undefined\<close>; \<open>None\<close> is \<open>undefined\<close>.\<close>

type_synonym ReadBuffer = "Buffer option"

text \<open>
  \<open>append(chunk)\<close>: a Buffer object is truthy even when empty, so only \<open>undefined\<close>
  takes the second branch.
\<close>

definition append_chunk :: "Buffer \<Rightarrow> ReadBuffer \<Rightarrow> ReadBuffer" where
  "append_chunk chunk rb = (case rb of Some b \<Rightarrow> Some (b @ chunk) | None \<Rightarrow> Some chunk)"


text \<open>\<open>buffer.indexOf('\n')\<close>: the first position of the byte, \<open>None\<close> for \<open>-1\<close>.\<close>

fun indexOf :: "byte \<Rightarrow> Buffer \<Rightarrow> nat option" where
  "indexOf c [] = None"
| "indexOf c (x # xs) = (if x = c then Some 0 else map_option Suc (indexOf c xs))"

text \<open>\<open>.replace(/\r$/, '')\<close>: one carriage return at the very end is removed.\<close>

definition replace_cr :: "jsstring \<Rightarrow> jsstring" where
  "replace_cr s = (if s \<noteq> [] \<and> last s = CR16 then butlast s else s)"

text \<open>
  \<open>readMessage()\<close> returns a message, \<open>null\<close> (\<open>Inr None\<close>) or throws (\<open>Inl\<close>). The
  buffer is advanced past the line before the line is parsed.
\<close>

definition readMessage ::
  "('j, 'm) runtime \<Rightarrow> ReadBuffer \<Rightarrow> (error + 'm option) \<times> ReadBuffer" where
  "readMessage L rb =
     (case rb of
        None \<Rightarrow> (Inr None, rb)
      | Some b \<Rightarrow>
          (case indexOf LF b of
             None \<Rightarrow> (Inr None, rb)
           | Some index \<Rightarrow>
               (let line = replace_cr (toString_utf8 L (take index b));
                    rb' = Some (drop (index + 1) b)
                in case JSON_parse L line of
                     None \<Rightarrow> (Inl SyntaxError, rb')
                   | Some j \<Rightarrow>
                       (case schema_parse L j of
                          None \<Rightarrow> (Inl ZodError, rb')
                        | Some m \<Rightarrow> (Inr (Some m), rb')))))"


text \<open>The bytes a buffer holds (none when it is \<open>undefined\<close>).\<close>

definition bytes_of :: "ReadBuffer \<Rightarrow> Buffer" where
  "bytes_of rb = (case rb of None \<Rightarrow> [] | Some b \<Rightarrow> b)"

text \<open>
  A reader that calls \<open>readMessage\<close> until it returns \<open>null\<close>, recording every
  outcome in order: a message, or the error of a line that failed to parse.
\<close>

function drain ::
  "('j, 'm) runtime \<Rightarrow> ReadBuffer \<Rightarrow> (error + 'm) list \<times> ReadBuffer" where
  "drain L rb =
     (case readMessage L rb of
        (Inr None, rb') \<Rightarrow> ([], rb')
      | (Inr (Some m), rb') \<Rightarrow> (case drain L rb' of (rs, rb'') \<Rightarrow> (Inr m # rs, rb''))
      | (Inl e, rb') \<Rightarrow> (case drain L rb' of (rs, rb'') \<Rightarrow> (Inl e # rs, rb'')))"
  by pat_completeness auto

lemma indexOf_bound: "indexOf c b = Some i \<Longrightarrow> i < length b"
  by (induction b arbitrary: i) (auto split: if_splits)

lemma readMessage_shrinks:
  "readMessage L rb = (r, rb') \<Longrightarrow> r \<noteq> Inr None \<Longrightarrow>
   length (bytes_of rb') < length (bytes_of rb)"
  by (auto simp: readMessage_def bytes_of_def Let_def dest: indexOf_bound
      split: option.splits)

termination drain
proof (relation "measure (\<lambda>(L, rb). length (bytes_of rb))")
  show "wf (measure (\<lambda>(L :: ('j, 'm) runtime, rb). length (bytes_of rb)))"
    by simp
next
  fix L :: "('j, 'm) runtime" and rb x rb' r m
  assume "(x, rb') = readMessage L rb" "x = Inr r" "r = Some m"
  then have "readMessage L rb = (Inr (Some m), rb')" by simp
  from readMessage_shrinks [OF this]
  show "((L, rb'), (L, rb)) \<in> measure (\<lambda>(L, rb). length (bytes_of rb))" by simp
next
  fix L :: "('j, 'm) runtime" and rb x rb' e
  assume "(x, rb') = readMessage L rb" "x = Inl e"
  then have "readMessage L rb = (Inl e, rb')" by simp
  from readMessage_shrinks [OF this]
  show "((L, rb'), (L, rb)) \<in> measure (\<lambda>(L, rb). length (bytes_of rb))" by simp
qed

declare drain.simps [simp del]

text \<open>
  A reader that is handed the chunks one at a time: after each \<open>append\<close> it calls
  \<open>readMessage\<close> until \<open>null\<close>, and the outcomes of all rounds are concatenated.
\<close>

fun feed ::
  "('j, 'm) runtime \<Rightarrow> Buffer list \<Rightarrow> ReadBuffer \<Rightarrow> (error + 'm) list \<times> ReadBuffer" where
  "feed L [] rb = ([], rb)"
| "feed L (chunk # chunks) rb =
     (case drain L (append_chunk chunk rb) of
        (rs, rb') \<Rightarrow> (case feed L chunks rb' of (rs', rb'') \<Rightarrow> (rs @ rs', rb'')))"

text \<open>The messages among the outcomes, in order.\<close>

definition messages :: "(error + 'm) list \<Rightarrow> 'm list" where
  "messages rs = concat (map (\<lambda>r. case r of Inl e \<Rightarrow> [] | Inr m \<Rightarrow> [m]) rs)"

text \<open>
  A reader with any schedule: it appends a chunk or calls \<open>readMessage\<close> once, in any
  order; the outcomes other than \<open>null\<close> are recorded. \<open>appended\<close> is the
  concatenation of the chunks of a schedule.
\<close>

datatype reader_op = Append Buffer | Read

fun run_ops ::
  "('j, 'm) runtime \<Rightarrow> reader_op list \<Rightarrow> ReadBuffer \<Rightarrow> (error + 'm) list \<times> ReadBuffer" where
  "run_ops L [] rb = ([], rb)"
| "run_ops L (Append chunk # ops) rb = run_ops L ops (append_chunk chunk rb)"
| "run_ops L (Read # ops) rb =
     (case readMessage L rb of
        (Inr None, rb') \<Rightarrow> run_ops L ops rb'
      | (Inr (Some m), rb') \<Rightarrow> (case run_ops L ops rb' of (rs, rb'') \<Rightarrow> (Inr m # rs, rb''))
      | (Inl e, rb') \<Rightarrow> (case run_ops L ops rb' of (rs, rb'') \<Rightarrow> (Inl e # rs, rb'')))"

fun appended :: "reader_op list \<Rightarrow> Buffer" where
  "appended [] = []"
| "appended (Append chunk # ops) = chunk @ appended ops"
| "appended (Read # ops) = appended ops"

section \<open>The inbound direction of the bridge (stdin to socket)\<close>

text \<open>
  A log record: \<open>logger.error(message, { error: String(error) }, ...)\<close> or
  \<open>logger.info(message, ...)\<close>.
\<close>

datatype log_entry = LogError string error | LogInfo string

text \<open>
  What the handlers of \<open>runDaemonProxy\<close> act on once the transport is started: the
  framer, the messages handed to \<open>transport.send\<close> (oldest first), the rejected
  promises whose \<open>.catch\<close> callback has not run yet (each as the log record its
  callback will write), the log, whether \<open>transport.close()\<close> was requested and the
  code \<open>process.exit\<close> was called with.
\<close>

record 'm bridge =
  readBuffer :: ReadBuffer
  sent :: "'m list"
  rejections :: "log_entry list"
  logged :: "log_entry list"
  close_requested :: bool
  exit_code :: "nat option"

text \<open>
  \<open>transport.send(message).catch(...)\<close>. The transport belongs to another package;
  \<open>tsend n m\<close> is the error its promise rejects with, if any, for the send number
  \<open>n\<close> of message \<open>m\<close>. The call returns a promise: the \<open>.catch\<close> callback of a
  rejection is a job that runs after the handler that made the call has returned, so
  the call itself writes nothing to the log.
\<close>

definition send_message :: "(nat \<Rightarrow> 'm \<Rightarrow> error option) \<Rightarrow> 'm \<Rightarrow> 'm bridge \<Rightarrow> 'm bridge" where
  "send_message tsend message s =
     s\<lparr>sent := sent s @ [message],
       rejections := rejections s @
         (case tsend (length (sent s)) message of
            None \<Rightarrow> []
          | Some e \<Rightarrow> [LogError ''Failed to send daemon proxy message'' e])\<rparr>"


text \<open>
  The \<open>while (true)\<close> loop of the \<open>'data'\<close> handler: a parse failure is logged and
  leaves the loop, \<open>null\<close> leaves the loop, a message is sent and the loop goes on.
\<close>

function onData_loop ::
  "('j, 'm) runtime \<Rightarrow> (nat \<Rightarrow> 'm \<Rightarrow> error option) \<Rightarrow> 'm bridge \<Rightarrow> 'm bridge" where
  "onData_loop L tsend s =
     (case readMessage L (readBuffer s) of
        (Inl e, rb') \<Rightarrow>
          s\<lparr>readBuffer := rb',
            logged := logged s @ [LogError ''Failed to parse daemon proxy message'' e]\<rparr>
      | (Inr None, rb') \<Rightarrow> s\<lparr>readBuffer := rb'\<rparr>
      | (Inr (Some message), rb') \<Rightarrow>
          onData_loop L tsend (send_message tsend message (s\<lparr>readBuffer := rb'\<rparr>)))"
  by pat_completeness auto

termination onData_loop
proof (relation "measure (\<lambda>(L, tsend, s). length (bytes_of (readBuffer s)))")
  show "wf (measure (\<lambda>(L :: ('j, 'm) runtime, tsend :: nat \<Rightarrow> 'm \<Rightarrow> error option, s).
    length (bytes_of (readBuffer s))))"
    by simp
next
  fix L :: "('j, 'm) runtime" and tsend :: "nat \<Rightarrow> 'm \<Rightarrow> error option"
    and s :: "'m bridge" and x rb' r message
  assume "(x, rb') = readMessage L (readBuffer s)" "x = Inr r" "r = Some message"
  then have "readMessage L (readBuffer s) = (Inr (Some message), rb')" by simp
  from readMessage_shrinks [OF this]
  show "((L, tsend, send_message tsend message (s\<lparr>readBuffer := rb'\<rparr>)), (L, tsend, s))
    \<in> measure (\<lambda>(L, tsend, s). length (bytes_of (readBuffer s)))"
    by (simp add: send_message_def)
qed

declare onData_loop.simps [simp del]

text \<open>\<open>process.stdin.on('data', ...)\<close>: append the chunk, then run the loop.\<close>

definition onData ::
  "('j, 'm) runtime \<Rightarrow> (nat \<Rightarrow> 'm \<Rightarrow> error option) \<Rightarrow> Buffer \<Rightarrow> 'm bridge \<Rightarrow> 'm bridge" where
  "onData L tsend chunk s =
     onData_loop L tsend (s\<lparr>readBuffer := append_chunk chunk (readBuffer s)\<rparr>)"


text \<open>\<open>transport.onclose\<close>: log, then \<open>process.exit(0)\<close>.\<close>

definition onTransportClose :: "'m bridge \<Rightarrow> 'm bridge" where
  "onTransportClose s =
     s\<lparr>logged := logged s @ [LogInfo ''Daemon transport closed''], exit_code := Some 0\<rparr>"

text \<open>
  The messages forwarded out of a list of read outcomes by a loop that stops at the
  first failure, and what is left of the list after that loop (the failing outcome is
  consumed).
\<close>

fun forwarded :: "(error + 'm) list \<Rightarrow> 'm list" where
  "forwarded [] = []"
| "forwarded (Inr m # rs) = m # forwarded rs"
| "forwarded (Inl e # rs) = []"

fun unread :: "(error + 'm) list \<Rightarrow> (error + 'm) list" where
  "unread [] = []"
| "unread (Inr m # rs) = unread rs"
| "unread (Inl e # rs) = rs"

text \<open>
  What parsing one line yields: \<open>JSONRPCMessageSchema.parse(JSON.parse(line))\<close> with
  the two exceptions as values.
\<close>

definition parse_line :: "('j, 'm) runtime \<Rightarrow> jsstring \<Rightarrow> error + 'm option" where
  "parse_line L line =
     (case JSON_parse L line of
        None \<Rightarrow> Inl SyntaxError
      | Some j \<Rightarrow> (case schema_parse L j of None \<Rightarrow> Inl ZodError | Some m \<Rightarrow> Inr (Some m)))"



text \<open>
  The records of a run of the \<open>'data'\<close> handler: one to come for each rejected send
  among the forwarded messages (the first of them is send number \<open>n\<close>), and the one the
  handler writes for the parse failure that ended the loop, if any.
\<close>

fun send_logs :: "(nat \<Rightarrow> 'm \<Rightarrow> error option) \<Rightarrow> nat \<Rightarrow> 'm list \<Rightarrow> log_entry list" where
  "send_logs tsend n [] = []"
| "send_logs tsend n (m # ms) =
     (case tsend n m of
        None \<Rightarrow> []
      | Some e \<Rightarrow> [LogError ''Failed to send daemon proxy message'' e]) @
     send_logs tsend (Suc n) ms"

fun parse_log :: "(error + 'm) list \<Rightarrow> log_entry list" where
  "parse_log [] = []"
| "parse_log (Inr m # rs) = parse_log rs"
| "parse_log (Inl e # rs) = [LogError ''Failed to parse daemon proxy message'' e]"

section \<open>JSON values and the message schema\<close>

text \<open>The code units of an ASCII text.\<close>

definition ascii :: "string \<Rightarrow> jsstring" where
  "ascii s = map (\<lambda>c. of_nat (of_char c)) s"

text \<open>
  A parsed JSON value; \<open>'n\<close> is the type of numbers. An object is the list of its
  properties in order.
\<close>

datatype 'n json =
    JNull
  | JBool bool
  | JNumber 'n
  | JString jsstring
  | JArray "'n json list"
  | JObject "(jsstring \<times> 'n json) list"

definition has_field :: "string \<Rightarrow> 'n json \<Rightarrow> bool" where
  "has_field k j = (case j of JObject kvs \<Rightarrow> ascii k \<in> set (map fst kvs) | _ \<Rightarrow> False)"

text \<open>
  Modelled from the spec: \<open>JSONRPCMessageSchema\<close>, which the framer imports from the
  MCP SDK and which is not defined under src/. The spec gives the shape of a protocol
  message as the field \<open>id\<close> plus exactly one of \<open>method\<close> (with \<open>params\<close>),
  \<open>result\<close>, \<open>error\<close>; \<open>params\<close> belongs to \<open>method\<close>.
\<close>

definition exactly_one_of :: "'n json \<Rightarrow> bool" where
  "exactly_one_of j \<longleftrightarrow>
     has_field ''id'' j \<and>
     length (filter (\<lambda>k. has_field k j) [''method'', ''result'', ''error'']) = 1 \<and>
     (has_field ''params'' j \<longrightarrow> has_field ''method'' j)"

text \<open>
  Modelled from the spec: \<open>JSONRPCMessageSchema.parse\<close> of the MCP SDK, not defined
  under src/. It returns a value of the shape above and throws (\<open>None\<close>) on any other.
\<close>

definition JSONRPCMessageSchema_parse :: "'n json \<Rightarrow> 'n json option" where
  "JSONRPCMessageSchema_parse j = (if exactly_one_of j then Some j else None)"

subsection \<open>An instance of the library parameters\<close>

text \<open>
  For evaluating the model on concrete inputs: the texts are ASCII, so decoding and
  encoding map bytes and code units one to one; \<open>JSON.parse\<close> and \<open>JSON.stringify\<close>
  are tabulated on two texts, the request \<open>{"id":1,"method":"ping"}\<close> and the
  ambiguous record \<open>{"id":1,"method":"ping","result":null}\<close>; every other text is a
  syntax error.
\<close>

definition ping_text :: string where
  "ping_text = ''{'' @ [CHR 0x22] @ ''id'' @ [CHR 0x22] @ '':1,'' @ [CHR 0x22] @ ''method'' @
     [CHR 0x22] @ '':'' @ [CHR 0x22] @ ''ping'' @ [CHR 0x22] @ ''}''"

definition ping :: "int json" where
  "ping = JObject [(ascii ''id'', JNumber 1), (ascii ''method'', JString (ascii ''ping''))]"

definition both_text :: string where
  "both_text = ''{'' @ [CHR 0x22] @ ''id'' @ [CHR 0x22] @ '':1,'' @ [CHR 0x22] @ ''method'' @
     [CHR 0x22] @ '':'' @ [CHR 0x22] @ ''ping'' @ [CHR 0x22] @ '','' @ [CHR 0x22] @ ''result'' @
     [CHR 0x22] @ '':null}''"

definition both :: "int json" where
  "both = JObject [(ascii ''id'', JNumber 1), (ascii ''method'', JString (ascii ''ping'')),
     (ascii ''result'', JNull)]"

definition example_runtime :: "(int json, int json) runtime" where
  "example_runtime =
     \<lparr>toString_utf8 = map (\<lambda>c. of_nat (of_char c)),
      JSON_parse = (\<lambda>s. if s = ascii ping_text then Some ping
                         else if s = ascii both_text then Some both else None),
      schema_parse = JSONRPCMessageSchema_parse,
      JSON_stringify = (\<lambda>m. if m = ping then ascii ping_text
                             else if m = both then ascii both_text else ascii ''null''),
      utf8_encode = map (\<lambda>u. char_of (unat u))\<rparr>"

section \<open>JSON texts and UTF-8, as the language defines them\<close>

text \<open>
  \<open>JSON.stringify\<close>, \<open>JSON.parse\<close> and the UTF-8 conversions between strings and
  buffers belong to the JavaScript runtime. This section models them on the JSON values
  above, with numbers that are integers (a number with a fraction or an exponent has no
  value in this model, and the model's \<open>JSON.parse\<close> rejects its text).
\<close>

subsection \<open>Strings\<close>













subsection \<open>Numbers\<close>









subsection \<open>Values\<close>

text \<open>
  White space between the tokens of a JSON text: space, tab, line feed, carriage
  return.
\<close>

definition is_ws :: "char16 \<Rightarrow> bool" where
  "is_ws c \<longleftrightarrow> c = 0x20 \<or> c = 0x09 \<or> c = 0x0A \<or> c = 0x0D"

definition skip_ws :: "jsstring \<Rightarrow> jsstring" where
  "skip_ws s = dropWhile is_ws s"













definition value_end :: "jsstring \<Rightarrow> bool" where
  "value_end r \<longleftrightarrow> r = [] \<or> hd r = 0x2C \<or> hd r = 0x5D \<or> hd r = 0x7D"

subsection \<open>UTF-8\<close>

text \<open>
  Writing a string as UTF-8 (\<open>Buffer.from(string, 'utf8')\<close>, and what a stream does
  with a string written to it): one to three bytes for a code unit, four bytes for a
  surrogate pair, and the bytes of \<open>U+FFFD\<close> for a surrogate without its partner.
\<close>

definition byte :: "nat \<Rightarrow> byte" where
  "byte n = char_of n"











definition plain :: "jsstring \<Rightarrow> bool" where
  "plain s \<longleftrightarrow> (\<forall>u \<in> set s. 0x20 \<le> unat u \<and> unat u < 0x80)"

definition printable :: "jsstring \<Rightarrow> bool" where
  "printable s \<longleftrightarrow> (\<forall>u \<in> set s. 0x20 \<le> unat u)"

subsection \<open>The runtime of the bridge\<close>




section \<open>Socket readiness and transport start\<close>

text \<open>The fields of \<open>fs.Stats\<close> the validator reads.\<close>

record Stats =
  isSocket :: bool
  mode :: nat
  uid :: nat

text \<open>
  The world the startup code observes, with time in milliseconds as \<open>Date.now()\<close>
  reports it: what \<open>fs.stat(path)\<close> issued at time \<open>t\<close> resolves to (or rejects
  with), what \<open>process.getuid()\<close> returns (\<open>None\<close> when \<open>process.getuid\<close> is not a
  function), what \<open>transport.start()\<close> issued at time \<open>t\<close> rejects with, if
  anything, how long an awaited call issued at \<open>t\<close> takes, and how late a timer
  armed at \<open>t\<close> fires.
\<close>

record env =
  fs_stat :: "nat \<Rightarrow> string \<Rightarrow> error + Stats"
  getuid :: "nat option"
  transport_start :: "nat \<Rightarrow> error option"
  io_took :: "nat \<Rightarrow> nat"
  timer_late :: "nat \<Rightarrow> nat"

definition SOCKET_READY_TIMEOUT_MS :: nat where
  "SOCKET_READY_TIMEOUT_MS = 3000"

definition SOCKET_READY_INTERVAL_MS :: nat where
  "SOCKET_READY_INTERVAL_MS = 200"

definition TRANSPORT_READY_TIMEOUT_MS :: nat where
  "TRANSPORT_READY_TIMEOUT_MS = 2000"

definition TRANSPORT_READY_INTERVAL_MS :: nat where
  "TRANSPORT_READY_INTERVAL_MS = 200"

text \<open>
  What a run does, in order: a \<open>fs.stat\<close> of a path at a time, a
  \<open>transport.start()\<close> at a time, a \<open>setTimeout\<close> wait of so many milliseconds, a
  log record.
\<close>

datatype event = StatCall string nat | ConnectCall nat | TimerWait nat | Logged log_entry

text \<open>
  \<open>validateSocketPermissions\<close>, called at time \<open>now\<close>. The octal constants
  \<open>0o777\<close> and \<open>0o600\<close> are 511 and 384.
\<close>

definition validateSocketPermissions :: "env \<Rightarrow> nat \<Rightarrow> string \<Rightarrow> error + unit" where
  "validateSocketPermissions E now socketPath =
     (case fs_stat E now socketPath of
        Inl e \<Rightarrow> Inl e
      | Inr stat \<Rightarrow>
          if \<not> isSocket stat then Inl (Error ''Socket path is not a Unix domain socket.'')
          else if mode stat AND 511 \<noteq> 384 then Inl (Error ''Socket permissions must be 600.'')
          else
            (case getuid E of
               None \<Rightarrow> Inr ()
             | Some u \<Rightarrow>
                 if uid stat \<noteq> u then Inl (Error ''Socket owner does not match current user.'')
                 else Inr ()))"

text \<open>
  \<open>await new Promise((resolve) => setTimeout(resolve, ms))\<close> started at time \<open>t\<close>:
  the time at which the code goes on.
\<close>

definition wake :: "env \<Rightarrow> nat \<Rightarrow> nat \<Rightarrow> nat" where
  "wake E t ms = t + ms + timer_late E t"

text \<open>
  The \<open>while (Date.now() < deadline)\<close> loop of \<open>waitForSocketReady\<close>, entered at time
  \<open>now\<close>. The result is what the function returns or throws, the events in order and
  the time at the end.
\<close>

function waitForSocketReady_loop ::
  "env \<Rightarrow> string \<Rightarrow> nat \<Rightarrow> nat \<Rightarrow> (error + unit) \<times> event list \<times> nat" where
  "waitForSocketReady_loop E socketPath deadline now =
     (if now < deadline then
        (case validateSocketPermissions E now socketPath of
           Inr u \<Rightarrow> (Inr (), [StatCall socketPath now], now + io_took E now)
         | Inl error \<Rightarrow>
             if code error \<noteq> Some ''ENOENT''
             then (Inl error, [StatCall socketPath now], now + io_took E now)
             else
               (case waitForSocketReady_loop E socketPath deadline
                       (wake E (now + io_took E now) SOCKET_READY_INTERVAL_MS) of
                  (r, tr, t) \<Rightarrow>
                    (r, StatCall socketPath now # TimerWait SOCKET_READY_INTERVAL_MS # tr, t)))
      else (Inl (Error ''Timed out waiting for daemon socket.''), [], now))"
  by pat_completeness auto

termination waitForSocketReady_loop
  by (relation "measure (\<lambda>(E, socketPath, deadline, now). deadline - now)")
     (auto simp: wake_def SOCKET_READY_INTERVAL_MS_def)

declare waitForSocketReady_loop.simps [simp del]

definition waitForSocketReady :: "env \<Rightarrow> string \<Rightarrow> nat \<Rightarrow> (error + unit) \<times> event list \<times> nat" where
  "waitForSocketReady E socketPath now =
     waitForSocketReady_loop E socketPath (now + SOCKET_READY_TIMEOUT_MS) now"

text \<open>
  The loop of \<open>startTransport\<close>, entered at time \<open>now\<close> with the current value of
  \<open>lastError\<close> (\<open>None\<close> is \<open>null\<close>).
\<close>

function startTransport_loop ::
  "env \<Rightarrow> nat \<Rightarrow> error option \<Rightarrow> nat \<Rightarrow> (error + unit) \<times> event list \<times> nat" where
  "startTransport_loop E deadline lastError now =
     (if now < deadline then
        (case transport_start E now of
           None \<Rightarrow> (Inr (), [ConnectCall now], now + io_took E now)
         | Some error \<Rightarrow>
             if code error \<noteq> Some ''ECONNREFUSED''
             then (Inl error, [ConnectCall now], now + io_took E now)
             else
               (case startTransport_loop E deadline (Some error)
                       (wake E (now + io_took E now) TRANSPORT_READY_INTERVAL_MS) of
                  (r, tr, t) \<Rightarrow>
                    (r, ConnectCall now # TimerWait TRANSPORT_READY_INTERVAL_MS # tr, t)))
      else
        (Inl (case lastError of
                Some e \<Rightarrow> e
              | None \<Rightarrow> Error ''Timed out waiting for daemon transport.''),
         [], now))"
  by pat_completeness auto

termination startTransport_loop
  by (relation "measure (\<lambda>(E, deadline, lastError, now). deadline - now)")
     (auto simp: wake_def TRANSPORT_READY_INTERVAL_MS_def)

declare startTransport_loop.simps [simp del]

definition startTransport :: "env \<Rightarrow> nat \<Rightarrow> (error + unit) \<times> event list \<times> nat" where
  "startTransport E now =
     startTransport_loop E (now + TRANSPORT_READY_TIMEOUT_MS) None now"

text \<open>
  \<open>runDaemonProxy\<close> up to the point where the stdin handlers are registered:
  \<open>Inr ()\<close> means the bridge is running.
\<close>

definition runDaemonProxy :: "env \<Rightarrow> string \<Rightarrow> nat \<Rightarrow> (error + unit) \<times> event list \<times> nat" where
  "runDaemonProxy E socketPath now =
     (case waitForSocketReady E socketPath now of
        (Inl error, tr, t) \<Rightarrow>
          (Inl error,
           tr @ [Logged (LogError ''MCP daemon socket validation failed'' error)], t)
      | (Inr u, tr, t) \<Rightarrow>
          (case startTransport E t of (r, tr', t') \<Rightarrow> (r, tr @ tr', t')))"

text \<open>The three errors \<open>validateSocketPermissions\<close> itself throws.\<close>

definition SecurityViolation :: "error \<Rightarrow> bool" where
  "SecurityViolation e \<longleftrightarrow>
     e = Error ''Socket path is not a Unix domain socket.'' \<or>
     e = Error ''Socket permissions must be 600.'' \<or>
     e = Error ''Socket owner does not match current user.''"

text \<open>
  The events of a polling run: every attempt that is followed by another one found the
  path missing (\<open>ENOENT\<close>) and was followed by a wait of the fixed interval.
\<close>

fun polls :: "env \<Rightarrow> string \<Rightarrow> event list \<Rightarrow> bool" where
  "polls E p [] = True"
| "polls E p [StatCall q t] = (q = p)"
| "polls E p (StatCall q t # TimerWait ms # tr) =
     (q = p \<and> ms = SOCKET_READY_INTERVAL_MS \<and>
      fs_stat E t p = Inl (ErrnoException ''ENOENT'') \<and> polls E p tr)"
| "polls E p tr = False"

text \<open>The times of the \<open>fs.stat\<close> calls of a run.\<close>

fun stat_times :: "event list \<Rightarrow> nat list" where
  "stat_times [] = []"
| "stat_times (StatCall q t # tr) = t # stat_times tr"
| "stat_times (ev # tr) = stat_times tr"

text \<open>
  The events of a connecting run: every attempt that is followed by another one was
  refused (\<open>ECONNREFUSED\<close>) and was followed by a wait of the fixed interval.
\<close>

fun connects :: "env \<Rightarrow> event list \<Rightarrow> bool" where
  "connects E [] = True"
| "connects E [ConnectCall t] = True"
| "connects E (ConnectCall t # TimerWait ms # tr) =
     (ms = TRANSPORT_READY_INTERVAL_MS \<and>
      transport_start E t = Some (ErrnoException ''ECONNREFUSED'') \<and> connects E tr)"
| "connects E tr = False"

text \<open>The times of the \<open>transport.start()\<close> calls of a run.\<close>

fun connect_times :: "event list \<Rightarrow> nat list" where
  "connect_times [] = []"
| "connect_times (ConnectCall t # tr) = t # connect_times tr"
| "connect_times (ev # tr) = connect_times tr"

subsection \<open>Three worlds for evaluation\<close>

text \<open>
  A socket of mode \<open>0o140600\<close> owned by user 1000 that appears after 500 ms, with a
  daemon that refuses connections before 1000 ms; a regular file of mode \<open>0o100644\<close>;
  and a path that never exists. Calls take no time and timers are punctual.
\<close>

definition late_socket_env :: env where
  "late_socket_env =
     \<lparr>fs_stat = (\<lambda>t p. if t < 500 then Inl (ErrnoException ''ENOENT'')
                        else Inr \<lparr>isSocket = True, mode = 49536, uid = 1000\<rparr>),
      getuid = Some 1000,
      transport_start = (\<lambda>t. if t < 1000 then Some (ErrnoException ''ECONNREFUSED'') else None),
      io_took = (\<lambda>t. 0),
      timer_late = (\<lambda>t. 0)\<rparr>"

definition regular_file_env :: env where
  "regular_file_env =
     \<lparr>fs_stat = (\<lambda>t p. Inr \<lparr>isSocket = False, mode = 33188, uid = 1000\<rparr>),
      getuid = Some 1000,
      transport_start = (\<lambda>t. None),
      io_took = (\<lambda>t. 0),
      timer_late = (\<lambda>t. 0)\<rparr>"

definition absent_env :: env where
  "absent_env =
     \<lparr>fs_stat = (\<lambda>t p. Inl (ErrnoException ''ENOENT'')),
      getuid = Some 1000,
      transport_start = (\<lambda>t. Some (ErrnoException ''EACCES'')),
      io_took = (\<lambda>t. 0),
      timer_late = (\<lambda>t. 0)\<rparr>"

section \<open>The entry point: obtaining the daemon's socket path\<close>

text \<open>
  The descriptor \<open>serverManager.get\<close> resolves to, as far as \<open>main\<close> reads it:
  \<open>childSocketPath\<close> is \<open>None\<close> when the property is absent or \<open>undefined\<close>. A
  value that is \<open>null\<close> or not an object is \<open>None :: info option\<close>.
\<close>

record info =
  childSocketPath :: "string option"

text \<open>
  The server manager belongs to another package. It is a parameter: three operations
  on a state \<open>'w\<close> of its own, each resolving to a value or rejecting with an error.
  \<open>mgr_start cwd allowExisting\<close> resolves to the \<open>serverId\<close>.
\<close>

record 'w manager =
  mgr_start :: "string \<Rightarrow> bool \<Rightarrow> 'w \<Rightarrow> (error + string) \<times> 'w"
  mgr_get :: "string \<Rightarrow> 'w \<Rightarrow> (error + info option) \<times> 'w"
  mgr_stop :: "string \<Rightarrow> bool \<Rightarrow> 'w \<Rightarrow> (error + unit) \<times> 'w"

text \<open>What \<open>main\<close> does, in order.\<close>

datatype call =
    Start string bool
  | Get string
  | Stop string bool
  | RunProxy string
  | PrintVersion
  | PrintHelp
  | MainLog log_entry
  | Exit nat

text \<open>
  The conditional expression that reads \<open>childSocketPath\<close> off the descriptor, and the
  test \<open>!socketPath\<close>: \<open>undefined\<close> and the empty string are falsy.
\<close>

definition socketPath_of :: "info option \<Rightarrow> string option" where
  "socketPath_of i = (case i of None \<Rightarrow> None | Some d \<Rightarrow> childSocketPath d)"

definition falsy :: "string option \<Rightarrow> bool" where
  "falsy socketPath \<longleftrightarrow> socketPath = None \<or> socketPath = Some []"

text \<open>
  The end of the \<open>try\<close> block: \<open>if (!socketPath) throw ...; await
  runDaemonProxy(socketPath)\<close>. \<open>proxy p\<close> is the error \<open>runDaemonProxy(p)\<close> rejects
  with, if any.
\<close>

definition connect_proxy ::
  "(string \<Rightarrow> error option) \<Rightarrow> string option \<Rightarrow> (error + unit) \<times> call list" where
  "connect_proxy proxy socketPath =
     (case socketPath of
        None \<Rightarrow>
          (Inl (Error ''Child daemon socket was not available from shell-server process.''), [])
      | Some p \<Rightarrow>
          if p = []
          then (Inl (Error ''Child daemon socket was not available from shell-server process.''), [])
          else (case proxy p of None \<Rightarrow> (Inr (), [RunProxy p]) | Some e \<Rightarrow> (Inl e, [RunProxy p])))"

text \<open>
  The body of \<open>if (!socketPath) { ... }\<close>: force-stop the instance, start a clean one,
  read its descriptor. The result is the new \<open>socketPath\<close>.
\<close>

definition restart ::
  "'w manager \<Rightarrow> string \<Rightarrow> string \<Rightarrow> 'w \<Rightarrow> (error + string option) \<times> call list \<times> 'w" where
  "restart M cwd serverId w =
     (case mgr_stop M serverId True w of
        (Inl e, w1) \<Rightarrow> (Inl e, [Stop serverId True], w1)
      | (Inr u, w1) \<Rightarrow>
          (case mgr_start M cwd False w1 of
             (Inl e, w2) \<Rightarrow> (Inl e, [Stop serverId True, Start cwd False], w2)
           | (Inr restarted, w2) \<Rightarrow>
               (case mgr_get M restarted w2 of
                  (Inl e, w3) \<Rightarrow>
                    (Inl e, [Stop serverId True, Start cwd False, Get restarted], w3)
                | (Inr restartedInfo, w3) \<Rightarrow>
                    (Inr (socketPath_of restartedInfo),
                     [Stop serverId True, Start cwd False, Get restarted], w3))))"

text \<open>
  The first statements of the \<open>try\<close> block: \<open>--daemon\<close> is only noted in the log.
\<close>

definition daemon_note :: "string list \<Rightarrow> call list" where
  "daemon_note argv =
     (if ''--daemon'' \<in> set argv
      then [MainLog (LogInfo ''`--daemon` is enabled (default behavior).'')] else [])"

text \<open>The \<open>try\<close> block of \<open>main\<close>.\<close>

definition main_try ::
  "'w manager \<Rightarrow> (string \<Rightarrow> error option) \<Rightarrow> string list \<Rightarrow> string \<Rightarrow> 'w \<Rightarrow>
   (error + unit) \<times> call list \<times> 'w" where
  "main_try M proxy argv cwd w =
     (case mgr_start M cwd True w of
        (Inl e, w1) \<Rightarrow> (Inl e, daemon_note argv @ [Start cwd True], w1)
      | (Inr started, w1) \<Rightarrow>
          (case mgr_get M started w1 of
             (Inl e, w2) \<Rightarrow> (Inl e, daemon_note argv @ [Start cwd True, Get started], w2)
           | (Inr i, w2) \<Rightarrow>
               if falsy (socketPath_of i) then
                 (case restart M cwd started w2 of
                    (Inl e, tr, w3) \<Rightarrow>
                      (Inl e, daemon_note argv @ [Start cwd True, Get started] @ tr, w3)
                  | (Inr socketPath, tr, w3) \<Rightarrow>
                      (case connect_proxy proxy socketPath of
                         (r, tr') \<Rightarrow>
                           (r, daemon_note argv @ [Start cwd True, Get started] @ tr @ tr', w3)))
               else
                 (case connect_proxy proxy (socketPath_of i) of
                    (r, tr') \<Rightarrow>
                      (r, daemon_note argv @ [Start cwd True, Get started] @ tr', w2))))"

text \<open>The \<open>catch\<close> of \<open>main\<close>: log the error, then \<open>process.exit(1)\<close>.\<close>

definition catch_exit :: "error \<Rightarrow> call list" where
  "catch_exit error =
     [MainLog (LogError ''Failed to start shell-server process for MCP proxy'' error), Exit 1]"

text \<open>\<open>main\<close>: the two early returns, then the \<open>try\<close> block and its \<open>catch\<close>.\<close>

definition main ::
  "'w manager \<Rightarrow> (string \<Rightarrow> error option) \<Rightarrow> string list \<Rightarrow> string \<Rightarrow> 'w \<Rightarrow> call list \<times> 'w" where
  "main M proxy argv cwd w =
     (if ''--version'' \<in> set argv \<or> ''-v'' \<in> set argv then ([PrintVersion], w)
      else if ''--help'' \<in> set argv \<or> ''-h'' \<in> set argv then ([PrintHelp], w)
      else
        (case main_try M proxy argv cwd w of
           (Inl error, tr, w') \<Rightarrow> (tr @ catch_exit error, w')
         | (Inr u, tr, w') \<Rightarrow> (tr, w')))"

text \<open>
  What follows the manager calls once a path is in hand: the proxy runs, and when it
  fails the \<open>catch\<close> runs.
\<close>

definition proxy_run :: "(string \<Rightarrow> error option) \<Rightarrow> string \<Rightarrow> call list" where
  "proxy_run proxy p =
     RunProxy p # (case proxy p of None \<Rightarrow> [] | Some e \<Rightarrow> catch_exit e)"

text \<open>The manager calls among the events, and the start calls among them.\<close>

fun is_start :: "call \<Rightarrow> bool" where
  "is_start (Start cwd allowExisting) = True"
| "is_start c = False"

fun is_stop :: "call \<Rightarrow> bool" where
  "is_stop (Stop serverId force) = True"
| "is_stop c = False"

text \<open>
  A manager for evaluation: its state counts the starts, and the descriptor carries the
  child socket path once \<open>k\<close> starts have been made.
\<close>

definition example_manager :: "nat \<Rightarrow> nat manager" where
  "example_manager k =
     \<lparr>mgr_start = (\<lambda>cwd allowExisting n. (Inr (replicate (Suc n) CHR ''s''), Suc n)),
      mgr_get = (\<lambda>serverId n.
        (Inr (Some \<lparr>childSocketPath = (if k \<le> n then Some ''/run/child.sock'' else None)\<rparr>), n)),
      mgr_stop = (\<lambda>serverId force n. (Inr (), n))\<rparr>"

section \<open>The daemon's socket listener\<close>

text \<open>
  The file system the daemon acts on: a path names at most one entry, which has a type,
  as \<open>fs.stat\<close> reports it, and permission bits.
\<close>

datatype ftype = Socket | RegularFile | Directory
















lemmas ex_defs = example_runtime_def ping_text_def both_text_def ping_def both_def ascii_def
  LF_def CR16_def LF16_def JSONRPCMessageSchema_parse_def exactly_one_of_def has_field_def
  parse_line_def replace_cr_def

section \<open>Framing is independent of chunk boundaries\<close>

lemma indexOf_append: "indexOf x b = Some i \<Longrightarrow> indexOf x (b @ c) = Some i"
  by (induction b arbitrary: i) (auto split: if_splits)

lemma indexOf_None_iff: "indexOf x b = None \<longleftrightarrow> x \<notin> set b"
  by (induction b) auto

lemma indexOf_Some_split:
  "indexOf x b = Some i \<Longrightarrow> b = take i b @ x # drop (Suc i) b \<and> x \<notin> set (take i b)"
  by (induction b arbitrary: i) (auto split: if_splits)

lemma readMessage_append:
  assumes "readMessage L rb = (r, rb')" "r \<noteq> Inr None"
  shows "readMessage L (append_chunk c rb) = (r, append_chunk c rb')"
proof -
  from assms obtain b i where rb: "rb = Some b" and i: "indexOf LF b = Some i"
    by (auto simp: readMessage_def split: option.splits)
  from i have "i < length b" by (rule indexOf_bound)
  with assms rb i indexOf_append [OF i, of c] show ?thesis
    by (auto simp: readMessage_def append_chunk_def Let_def split: option.splits)
qed

lemma readMessage_null: "readMessage L rb = (Inr None, rb') \<Longrightarrow> rb' = rb"
  by (auto simp: readMessage_def Let_def split: option.splits)

lemma drain_step:
  "readMessage L rb = (r, rb') \<Longrightarrow>
   drain L rb =
     (case r of
        Inr None \<Rightarrow> ([], rb')
      | Inr (Some m) \<Rightarrow> (Inr m # fst (drain L rb'), snd (drain L rb'))
      | Inl e \<Rightarrow> (Inl e # fst (drain L rb'), snd (drain L rb')))"
  by (subst drain.simps) (simp split: prod.splits sum.splits option.splits)

lemma drain_append:
  "drain L (append_chunk c rb) =
     (fst (drain L rb) @ fst (drain L (append_chunk c (snd (drain L rb)))),
      snd (drain L (append_chunk c (snd (drain L rb)))))"
proof (induction L rb rule: drain.induct)
  case (1 L rb)
  obtain r rb1 where rm: "readMessage L rb = (r, rb1)" by (cases "readMessage L rb")
  show ?case
  proof (cases "r = Inr None")
    case True
    with rm have "rb1 = rb" by (auto dest: readMessage_null)
    with rm True have "drain L rb = ([], rb)" by (simp add: drain_step)
    then show ?thesis by simp
  next
    case False
    from readMessage_append [OF rm False]
    have rm': "readMessage L (append_chunk c rb) = (r, append_chunk c rb1)" .
    have IH: "drain L (append_chunk c rb1) =
        (fst (drain L rb1) @ fst (drain L (append_chunk c (snd (drain L rb1)))),
         snd (drain L (append_chunk c (snd (drain L rb1)))))"
    proof (cases r)
      case (Inl e)
      with "1.IH"(1) rm show ?thesis by simp
    next
      case (Inr mo)
      with False obtain m where "mo = Some m" by (cases mo) auto
      with "1.IH"(2) rm Inr show ?thesis by simp
    qed
    from False show ?thesis
      by (simp add: drain_step [OF rm] drain_step [OF rm'] IH split: sum.splits option.splits)
  qed
qed

lemma drain_no_LF: "LF \<notin> set (bytes_of rb) \<Longrightarrow> drain L rb = ([], rb)"
  by (subst drain.simps)
     (auto simp: readMessage_def bytes_of_def indexOf_None_iff [symmetric] split: option.splits)

lemma drain_drained: "LF \<notin> set (bytes_of (snd (drain L rb)))"
proof (induction L rb rule: drain.induct)
  case (1 L rb)
  obtain r rb1 where rm: "readMessage L rb = (r, rb1)" by (cases "readMessage L rb")
  show ?case
  proof (cases r)
    case (Inl e)
    with "1.IH"(1) rm show ?thesis
      by (simp add: drain_step [OF rm])
  next
    case (Inr mo)
    show ?thesis
    proof (cases mo)
      case None
      with rm Inr have "rb1 = rb" by (auto dest: readMessage_null)
      moreover from rm Inr None have "LF \<notin> set (bytes_of rb)"
        by (auto simp: readMessage_def bytes_of_def Let_def indexOf_None_iff
            split: option.splits)
      ultimately show ?thesis using Inr None
        by (simp add: drain_step [OF rm])
    next
      case (Some m)
      with "1.IH"(2) rm Inr show ?thesis
        by (simp add: drain_step [OF rm])
    qed
  qed
qed

lemma bytes_of_append_chunk [simp]: "bytes_of (append_chunk c rb) = bytes_of rb @ c"
  by (simp add: append_chunk_def bytes_of_def split: option.splits)

lemma drain_bytes_cong:
  "bytes_of rb = bytes_of rb' \<Longrightarrow>
   fst (drain L rb) = fst (drain L rb') \<and>
   bytes_of (snd (drain L rb)) = bytes_of (snd (drain L rb'))"
proof (cases "rb = rb'")
  case True
  then show ?thesis by simp
next
  case False
  assume "bytes_of rb = bytes_of rb'"
  with False have e: "bytes_of rb = []" "bytes_of rb' = []"
    by (auto simp: bytes_of_def split: option.splits)
  then have "drain L rb = ([], rb)" "drain L rb' = ([], rb')"
    by (simp_all add: drain_no_LF)
  with e show ?thesis by simp
qed

lemma feed_drain:
  "drain L rb = (rs0, rb0) \<Longrightarrow>
   fst (drain L (append_chunk (concat chunks) rb)) = rs0 @ fst (feed L chunks rb0) \<and>
   bytes_of (snd (drain L (append_chunk (concat chunks) rb))) = bytes_of (snd (feed L chunks rb0))"
proof (induction chunks arbitrary: rb rs0 rb0)
  case Nil
  from drain_drained [of L rb] Nil have "LF \<notin> set (bytes_of rb0)" by simp
  then have "drain L (append_chunk [] rb0) = ([], append_chunk [] rb0)"
    by (intro drain_no_LF) simp
  with Nil show ?case
    by (simp add: drain_append [of L "[]" rb])
next
  case (Cons c cs)
  obtain rs1 rb1 where d1: "drain L (append_chunk c rb0) = (rs1, rb1)"
    by (cases "drain L (append_chunk c rb0)")
  with Cons.prems have d: "drain L (append_chunk c rb) = (rs0 @ rs1, rb1)"
    by (simp add: drain_append [of L c rb])
  have "bytes_of (append_chunk (concat (c # cs)) rb) =
        bytes_of (append_chunk (concat cs) (append_chunk c rb))" by simp
  from drain_bytes_cong [OF this, of L] Cons.IH [OF d] d1
  show ?case by (simp split: prod.splits)
qed

lemma bytes_of_fold_append:
  "bytes_of (fold append_chunk chunks rb) = bytes_of rb @ concat chunks"
  by (induction chunks arbitrary: rb) simp_all

lemma run_ops_Read:
  "readMessage L rb = (r, rb') \<Longrightarrow>
   run_ops L (Read # ops) rb =
     (case r of
        Inr None \<Rightarrow> run_ops L ops rb'
      | Inr (Some m) \<Rightarrow> (Inr m # fst (run_ops L ops rb'), snd (run_ops L ops rb'))
      | Inl e \<Rightarrow> (Inl e # fst (run_ops L ops rb'), snd (run_ops L ops rb')))"
  by (simp split: prod.splits sum.splits option.splits)

lemma run_ops_drain:
  "fst (run_ops L ops rb) @ fst (drain L (snd (run_ops L ops rb))) =
   fst (drain L (Some (bytes_of rb @ appended ops)))"
proof (induction ops arbitrary: rb)
  case Nil
  have "bytes_of rb = bytes_of (Some (bytes_of rb))" by (simp add: bytes_of_def)
  from drain_bytes_cong [OF this, of L] show ?case by simp
next
  case (Cons x ops)
  show ?case
  proof (cases x)
    case (Append chunk)
    with Cons.IH [of "append_chunk chunk rb"] show ?thesis by simp
  next
    case Read
    obtain r rb1 where rm: "readMessage L rb = (r, rb1)" by (cases "readMessage L rb")
    show ?thesis
    proof (cases "r = Inr None")
      case True
      with rm have "rb1 = rb" by (auto dest: readMessage_null)
      with Read rm True Cons.IH [of rb] show ?thesis by simp
    next
      case False
      from rm False obtain b where b: "rb = Some b"
        by (auto simp: readMessage_def split: option.splits)
      from readMessage_append [OF rm False, of "appended ops"] b
      have rm': "readMessage L (Some (bytes_of rb @ appended ops)) =
        (r, append_chunk (appended ops) rb1)" by (simp add: append_chunk_def bytes_of_def)
      have "bytes_of (append_chunk (appended ops) rb1) = bytes_of (Some (bytes_of rb1 @ appended ops))"
        by (simp add: bytes_of_def [of "Some (bytes_of rb1 @ appended ops)"])
      from drain_bytes_cong [OF this, of L]
      have c: "fst (drain L (append_chunk (appended ops) rb1)) =
        fst (drain L (Some (bytes_of rb1 @ appended ops)))" by simp
      from False Read Cons.IH [of rb1] c show ?thesis
        by (simp add: drain_step [OF rm'] run_ops_Read [OF rm] del: run_ops.simps
            split: sum.splits option.splits)
    qed
  qed
qed

text \<open>
  Claim C1. For every byte sequence and every way of cutting it into chunks, a fresh
  ReadBuffer that is given the chunks in order and read with \<open>readMessage\<close> until it
  returns \<open>null\<close> yields the same ordered outcomes (and so the same messages) as a
  fresh ReadBuffer given all the bytes as one chunk. This holds when the reader drains
  after every chunk (\<open>feed\<close>), when it appends all chunks first (\<open>fold\<close>), and for
  every other schedule of appends and single reads that ends with reading until
  \<open>null\<close>; the bytes left in the buffer are the same too.
\<close>

theorem C1_chunking_invariance:
  "messages (fst (feed L chunks None)) =
     messages (fst (drain L (append_chunk (concat chunks) None))) \<and>
   fst (feed L chunks None) = fst (drain L (append_chunk (concat chunks) None)) \<and>
   bytes_of (snd (feed L chunks None)) =
     bytes_of (snd (drain L (append_chunk (concat chunks) None))) \<and>
   fst (drain L (fold append_chunk chunks None)) =
     fst (drain L (append_chunk (concat chunks) None)) \<and>
   bytes_of (snd (drain L (fold append_chunk chunks None))) =
     bytes_of (snd (drain L (append_chunk (concat chunks) None))) \<and>
   fst (run_ops L ops None) @ fst (drain L (snd (run_ops L ops None))) =
     fst (drain L (append_chunk (appended ops) None))"
proof -
  have "drain L None = ([], None)" by (simp add: drain_no_LF bytes_of_def)
  from feed_drain [OF this, of chunks]
  have a: "fst (feed L chunks None) = fst (drain L (append_chunk (concat chunks) None))"
    and b: "bytes_of (snd (feed L chunks None)) =
      bytes_of (snd (drain L (append_chunk (concat chunks) None)))" by simp_all
  have "bytes_of (fold append_chunk chunks None) = bytes_of (append_chunk (concat chunks) None)"
    by (simp add: bytes_of_fold_append)
  note c = drain_bytes_cong [OF this, of L]
  have d: "fst (run_ops L ops None) @ fst (drain L (snd (run_ops L ops None))) =
     fst (drain L (append_chunk (appended ops) None))"
    using run_ops_drain [of L ops None] by (simp add: append_chunk_def bytes_of_def)
  from a b c d show ?thesis by simp
qed

theorem C1_chunking_invariance_witness:
  "fst (feed example_runtime [''oo'', ''ps'' @ LF # take 5 ping_text, drop 5 ping_text @ [LF]] None) =
     [Inl SyntaxError, Inr ping] \<and>
   fst (drain example_runtime
     (fold append_chunk [''oo'', ''ps'' @ LF # take 5 ping_text, drop 5 ping_text @ [LF]] None)) =
     [Inl SyntaxError, Inr ping] \<and>
   fst (run_ops example_runtime
          [Read, Append (''oops'' @ LF # take 5 ping_text), Read, Read,
           Append (drop 5 ping_text @ [LF])] None) @
   fst (drain example_runtime (snd (run_ops example_runtime
          [Read, Append (''oops'' @ LF # take 5 ping_text), Read, Read,
           Append (drop 5 ping_text @ [LF])] None))) =
     [Inl SyntaxError, Inr ping]"
proof -
  let ?cs = "[''oo'', ''ps'' @ LF # take 5 ping_text, drop 5 ping_text @ [LF]]"
  let ?ops = "[Read, Append (''oops'' @ LF # take 5 ping_text), Read, Read,
           Append (drop 5 ping_text @ [LF])]"
  note T = C1_chunking_invariance [of example_runtime ?cs ?ops]
  have d: "fst (drain example_runtime (append_chunk (concat ?cs) None)) =
    [Inl SyntaxError, Inr ping]" by code_simp
  have d': "fst (drain example_runtime (append_chunk (appended ?ops) None)) =
    [Inl SyntaxError, Inr ping]" by code_simp
  have 1: "fst (feed example_runtime ?cs None) =
    fst (drain example_runtime (append_chunk (concat ?cs) None))"
    using T by blast
  have 2: "fst (drain example_runtime (fold append_chunk ?cs None)) =
    fst (drain example_runtime (append_chunk (concat ?cs) None))"
    using T by blast
  have 3: "fst (run_ops example_runtime ?ops None) @
    fst (drain example_runtime (snd (run_ops example_runtime ?ops None))) =
    fst (drain example_runtime (append_chunk (appended ?ops) None))"
    using T by blast
  show ?thesis
    unfolding 1 2 3 d d' by simp
qed

section \<open>Records, retained bytes and parse failures\<close>

lemma indexOf_first: "c \<notin> set xs \<Longrightarrow> indexOf c (xs @ c # ys) = Some (length xs)"
  by (induction xs) auto

lemma readMessage_record:
  "LF \<notin> set rec \<Longrightarrow>
   readMessage L (Some (rec @ LF # rest)) =
     (parse_line L (replace_cr (toString_utf8 L rec)), Some rest)"
  by (simp add: readMessage_def indexOf_first parse_line_def Let_def split: option.splits)

lemma parse_line_error: "parse_line L line = Inl e \<Longrightarrow> e = SyntaxError \<or> e = ZodError"
  by (auto simp: parse_line_def split: option.splits)

lemma drain_consumes:
  "\<exists>pre. bytes_of rb = pre @ bytes_of (snd (drain L rb)) \<and> (pre = [] \<or> last pre = LF)"
proof (induction L rb rule: drain.induct)
  case (1 L rb)
  obtain r rb1 where rm: "readMessage L rb = (r, rb1)" by (cases "readMessage L rb")
  show ?case
  proof (cases "r = Inr None")
    case True
    with rm have "drain L rb = ([], rb)" by (auto simp: drain_step dest: readMessage_null)
    then show ?thesis by simp
  next
    case False
    with rm obtain b i where rb: "rb = Some b" and i: "indexOf LF b = Some i"
      and rb1: "rb1 = Some (drop (Suc i) b)"
      by (auto simp: readMessage_def Let_def split: option.splits)
    have IH: "\<exists>pre. bytes_of rb1 = pre @ bytes_of (snd (drain L rb1)) \<and> (pre = [] \<or> last pre = LF)"
    proof (cases r)
      case (Inl e)
      with "1.IH"(1) rm show ?thesis by simp
    next
      case (Inr mo)
      with False obtain m where "mo = Some m" by (cases mo) auto
      with "1.IH"(2) rm Inr show ?thesis by simp
    qed
    then obtain pre where pre: "drop (Suc i) b = pre @ bytes_of (snd (drain L rb1))"
      "pre = [] \<or> last pre = LF"
      using rb1 by (auto simp: bytes_of_def)
    from False have d: "snd (drain L rb) = snd (drain L rb1)"
      by (simp add: drain_step [OF rm] split: sum.splits option.splits)
    from indexOf_Some_split [OF i] pre(1)
    have "b = (take i b @ LF # pre) @ bytes_of (snd (drain L rb1))" by simp
    moreover from pre(2) have "last (take i b @ LF # pre) = LF" by auto
    ultimately show ?thesis using rb d
      by (metis bytes_of_def option.simps(5))
  qed
qed

lemma takeWhile_upto: "x \<notin> set xs \<Longrightarrow> takeWhile (\<lambda>y. y \<noteq> x) (xs @ x # ys) = xs"
  by (induction xs) auto

lemma drain_keeps_tail:
  assumes "LF \<notin> set tail"
  shows "bytes_of (snd (drain L (Some (pre @ LF # tail)))) = tail"
proof -
  let ?r = "bytes_of (snd (drain L (Some (pre @ LF # tail))))"
  from drain_consumes [of "Some (pre @ LF # tail)" L]
  obtain p where p: "pre @ LF # tail = p @ ?r" "p = [] \<or> last p = LF"
    by (auto simp: bytes_of_def)
  have r: "LF \<notin> set ?r" by (rule drain_drained)
  have "p \<noteq> []"
  proof
    assume "p = []"
    with p(1) have "?r = pre @ LF # tail" by simp
    with r show False by (metis in_set_conv_decomp)
  qed
  with p(2) obtain p' where p': "p = p' @ [LF]" by (metis append_butlast_last_id)
  with p(1) have "rev tail @ LF # rev pre = rev ?r @ LF # rev p'"
    by (metis rev_append rev.simps(2) append_assoc append_Cons append_Nil rev_rev_ident)
  then have "takeWhile (\<lambda>x. x \<noteq> LF) (rev tail @ LF # rev pre) =
             takeWhile (\<lambda>x. x \<noteq> LF) (rev ?r @ LF # rev p')" by simp
  moreover from assms have "takeWhile (\<lambda>x. x \<noteq> LF) (rev tail @ LF # rev pre) = rev tail"
    by (intro takeWhile_upto) simp
  moreover from r have "takeWhile (\<lambda>x. x \<noteq> LF) (rev ?r @ LF # rev p') = rev ?r"
    by (intro takeWhile_upto) simp
  ultimately have "rev tail = rev ?r" by simp
  then show ?thesis by simp
qed

text \<open>
  Claim C3. A complete record is the bytes before the next line feed, decoded, with one
  trailing carriage return removed if there is one (and only one: \<open>replace_cr\<close>
  leaves any other text alone); \<open>readMessage\<close> parses exactly that and leaves the
  bytes after the line feed. Bytes that hold no line feed are not a record: they stay
  in the buffer as they are, also after every complete record before them has been
  read, and the next \<open>append\<close> puts its chunk right behind them. When the line fails
  to parse, \<open>readMessage\<close> raises the parser's or the schema's error and the buffer
  holds the bytes after the failing line, so the next call reads the next record.
\<close>

theorem C3_records_and_retention:
  "(LF \<notin> set rec \<longrightarrow>
      readMessage L (Some (rec @ LF # rest)) =
        (parse_line L (replace_cr (toString_utf8 L rec)), Some rest)) \<and>
   replace_cr (line @ [CR16]) = line \<and>
   (line = [] \<or> last line \<noteq> CR16 \<longrightarrow> replace_cr line = line) \<and>
   (LF \<notin> set tail \<longrightarrow>
      readMessage L (Some tail) = (Inr None, Some tail) \<and>
      append_chunk chunk (snd (readMessage L (Some tail))) = Some (tail @ chunk) \<and>
      bytes_of (snd (drain L (Some (pre @ LF # tail)))) = tail \<and>
      bytes_of (append_chunk chunk (snd (drain L (Some (pre @ LF # tail))))) = tail @ chunk) \<and>
   (LF \<notin> set rec \<and> parse_line L (replace_cr (toString_utf8 L rec)) = Inl e \<longrightarrow>
      readMessage L (Some (rec @ LF # rest)) = (Inl e, Some rest) \<and>
      (e = SyntaxError \<or> e = ZodError) \<and>
      (LF \<notin> set rec' \<longrightarrow>
         readMessage L (snd (readMessage L (Some (rec @ LF # rec' @ LF # rest)))) =
           (parse_line L (replace_cr (toString_utf8 L rec')), Some rest)))"
proof -
  have tail: "readMessage L (Some tail) = (Inr None, Some tail)" if "LF \<notin> set tail"
    using that by (simp add: readMessage_def indexOf_None_iff [symmetric])
  have app: "append_chunk chunk (Some tail) = Some (tail @ chunk)"
    by (simp add: append_chunk_def)
  show ?thesis
    by (auto simp: readMessage_record tail app drain_keeps_tail replace_cr_def
        dest: parse_line_error)
qed

theorem C3_records_and_retention_witness:
  "readMessage example_runtime (Some (''oops'' @ LF # ''abc'')) = (Inl SyntaxError, Some ''abc'') \<and>
   replace_cr (ascii ''a'' @ [CR16]) = ascii ''a'' \<and>
   replace_cr (ascii ''a'') = ascii ''a'' \<and>
   readMessage example_runtime (Some ''{'') = (Inr None, Some ''{'') \<and>
   bytes_of (snd (drain example_runtime (Some (''x'' @ LF # ''{'')))) = ''{'' \<and>
   bytes_of (append_chunk ''}'' (snd (drain example_runtime (Some (''x'' @ LF # ''{''))))) = ''{}'' \<and>
   readMessage example_runtime
     (snd (readMessage example_runtime (Some (''oops'' @ LF # ping_text @ LF # ''abc'')))) =
     (Inr (Some ping), Some ''abc'')"
proof -
  have h1: "LF \<notin> set ''oops''" by (simp add: LF_def)
  have h2: "ascii ''a'' = [] \<or> last (ascii ''a'') \<noteq> CR16" by (simp add: ascii_def CR16_def)
  have h3: "LF \<notin> set ''{''" by (simp add: LF_def)
  have h4: "parse_line example_runtime (replace_cr (toString_utf8 example_runtime ''oops'')) =
    Inl SyntaxError" by (simp add: ex_defs)
  have h5: "LF \<notin> set ping_text" by (simp add: LF_def ping_text_def)
  have h6: "parse_line example_runtime (replace_cr (toString_utf8 example_runtime ping_text)) =
    Inr (Some ping)" by (simp add: ex_defs)
  from C3_records_and_retention [where rec = "''oops''" and L = example_runtime
      and rest = "''abc''" and line = "ascii ''a''" and tail = "''{''" and chunk = "''}''"
      and pre = "''x''" and e = SyntaxError and rec' = ping_text]
    h1 h2 h3 h4 h5 h6
  show ?thesis by simp
qed

section \<open>The runtime: JSON texts and their bytes\<close>



























lemma value_end_simps [simp]:
  "value_end []" "value_end (0x2C # r)" "value_end (0x5D # r)" "value_end (0x7D # r)"
  by (simp_all add: value_end_def)


lemma skip_ws_value_end: "value_end r \<Longrightarrow> skip_ws r = r"
  by (cases r) (auto simp: value_end_def skip_ws_def is_ws_def)































lemma printable_append [simp]: "printable (a @ b) \<longleftrightarrow> printable a \<and> printable b"
  by (auto simp: printable_def)

lemma printable_Cons [simp]: "printable (u # s) \<longleftrightarrow> 0x20 \<le> unat u \<and> printable s"
  by (auto simp: printable_def)

lemma printable_Nil [simp]: "printable []"
  by (simp add: printable_def)

lemma plain_append [simp]: "plain (a @ b) \<longleftrightarrow> plain a \<and> plain b"
  by (auto simp: plain_def)

lemma plain_Cons [simp]: "plain (u # s) \<longleftrightarrow> 0x20 \<le> unat u \<and> unat u < 0x80 \<and> plain s"
  by (auto simp: plain_def)

lemma plain_Nil [simp]: "plain []"
  by (simp add: plain_def)





























subsection \<open>Two lines read by the framer\<close>







section \<open>The data handler absorbs single-message faults\<close>

lemma onData_loop_step:
  "readMessage L (readBuffer s) = (r, rb') \<Longrightarrow>
   onData_loop L tsend s =
     (case r of
        Inl e \<Rightarrow>
          s\<lparr>readBuffer := rb',
            logged := logged s @ [LogError ''Failed to parse daemon proxy message'' e]\<rparr>
      | Inr None \<Rightarrow> s\<lparr>readBuffer := rb'\<rparr>
      | Inr (Some message) \<Rightarrow>
          onData_loop L tsend (send_message tsend message (s\<lparr>readBuffer := rb'\<rparr>)))"
  by (subst onData_loop.simps) (simp split: sum.splits option.splits)

lemma onData_loop_char:
  "sent (onData_loop L tsend s) = sent s @ forwarded (fst (drain L (readBuffer s))) \<and>
   fst (drain L (readBuffer (onData_loop L tsend s))) = unread (fst (drain L (readBuffer s))) \<and>
   logged (onData_loop L tsend s) = logged s @ parse_log (fst (drain L (readBuffer s))) \<and>
   rejections (onData_loop L tsend s) =
     rejections s @ send_logs tsend (length (sent s)) (forwarded (fst (drain L (readBuffer s)))) \<and>
   close_requested (onData_loop L tsend s) = close_requested s \<and>
   exit_code (onData_loop L tsend s) = exit_code s"
proof (induction L tsend s rule: onData_loop.induct)
  case (1 L tsend s)
  obtain r rb1 where rm: "readMessage L (readBuffer s) = (r, rb1)"
    by (cases "readMessage L (readBuffer s)")
  show ?case
  proof (cases r)
    case (Inl e)
    then show ?thesis
      by (simp add: onData_loop_step [OF rm] drain_step [OF rm])
  next
    case (Inr mo)
    show ?thesis
    proof (cases mo)
      case None
      with rm Inr have "rb1 = readBuffer s" by (auto dest: readMessage_null)
      with None Inr show ?thesis
        by (simp add: onData_loop_step [OF rm] drain_step [OF rm])
    next
      case (Some m)
      from "1.IH" rm Inr Some
      show ?thesis
        by (simp add: onData_loop_step [OF rm] drain_step [OF rm] send_message_def)
    qed
  qed
qed








section \<open>Only validated messages are forwarded\<close>

lemma readMessage_validated:
  "readMessage L rb = (Inr (Some m), rb') \<Longrightarrow>
   \<exists>line j. JSON_parse L line = Some j \<and> schema_parse L j = Some m"
  by (auto simp: readMessage_def Let_def split: option.splits)

lemma drain_validated:
  "Inr m \<in> set (fst (drain L rb)) \<Longrightarrow> \<exists>j. schema_parse L j = Some m"
proof (induction L rb rule: drain.induct)
  case (1 L rb)
  obtain r rb1 where rm: "readMessage L rb = (r, rb1)" by (cases "readMessage L rb")
  show ?case
  proof (cases r)
    case (Inl e)
    with "1.IH"(1) "1.prems" rm show ?thesis
      by (simp add: drain_step [OF rm])
  next
    case (Inr mo)
    show ?thesis
    proof (cases mo)
      case None
      with "1.prems" Inr show ?thesis by (simp add: drain_step [OF rm])
    next
      case (Some m')
      with "1.IH"(2) "1.prems" rm Inr readMessage_validated [of L rb m' rb1] show ?thesis
        by (auto simp: drain_step [OF rm])
    qed
  qed
qed

lemma forwarded_subset: "m \<in> set (forwarded rs) \<Longrightarrow> Inr m \<in> set rs"
  by (induction rs rule: forwarded.induct) auto

lemma schema_accepts: "JSONRPCMessageSchema_parse j = Some m \<Longrightarrow> m = j \<and> exactly_one_of m"
  by (auto simp: JSONRPCMessageSchema_parse_def split: if_splits)

text \<open>
  Claim C2. Whatever the schema is, the inbound handler hands to \<open>transport.send\<close>
  only values the schema's \<open>parse\<close> returned. With the schema being the
  exactly-one-of shape, every message
  \<open>readMessage\<close> returns satisfies the shape; a line whose JSON value does not
  satisfy it makes \<open>readMessage\<close> raise the schema's error, and the line is consumed;
  the inbound handler hands to \<open>transport.send\<close> only messages that satisfy the
  shape. A record carrying two of \<open>method\<close>, \<open>result\<close>, \<open>error\<close>, or no \<open>id\<close>, does
  not satisfy it.
\<close>

theorem C2_only_validated_messages_forwarded:
  "(readMessage (L\<lparr>schema_parse := JSONRPCMessageSchema_parse\<rparr>) rb = (Inr (Some m), rb') \<longrightarrow>
      exactly_one_of m) \<and>
   (LF \<notin> set rec \<and> JSON_parse L (replace_cr (toString_utf8 L rec)) = Some j \<and>
    \<not> exactly_one_of j \<longrightarrow>
      readMessage (L\<lparr>schema_parse := JSONRPCMessageSchema_parse\<rparr>) (Some (rec @ LF # rest)) =
        (Inl ZodError, Some rest)) \<and>
   (\<exists>ms. sent (onData (L\<lparr>schema_parse := JSONRPCMessageSchema_parse\<rparr>) tsend chunk s) =
           sent s @ ms \<and> list_all exactly_one_of ms) \<and>
   (has_field ''method'' j' \<and> has_field ''result'' j' \<longrightarrow> \<not> exactly_one_of j') \<and>
   (has_field ''method'' j' \<and> has_field ''error'' j' \<longrightarrow> \<not> exactly_one_of j') \<and>
   (has_field ''result'' j' \<and> has_field ''error'' j' \<longrightarrow> \<not> exactly_one_of j') \<and>
   (\<not> has_field ''id'' j' \<longrightarrow> \<not> exactly_one_of j') \<and>
   (\<exists>ms. sent (onData R tsend' chunk' s') = sent s' @ ms \<and>
      (\<forall>x \<in> set ms. \<exists>v. schema_parse R v = Some x))"
proof -
  let ?L = "L\<lparr>schema_parse := JSONRPCMessageSchema_parse\<rparr>"
  have a: "exactly_one_of m" if "readMessage ?L rb = (Inr (Some m), rb')"
    using readMessage_validated [OF that] by (auto dest: schema_accepts)
  have b: "readMessage ?L (Some (rec @ LF # rest)) = (Inl ZodError, Some rest)"
    if "LF \<notin> set rec" "JSON_parse L (replace_cr (toString_utf8 L rec)) = Some j"
      "\<not> exactly_one_of j"
    using that
    by (simp add: readMessage_record parse_line_def JSONRPCMessageSchema_parse_def)
  let ?rs = "fst (drain ?L (append_chunk chunk (readBuffer s)))"
  have "exactly_one_of x" if "x \<in> set (forwarded ?rs)" for x
    using drain_validated [OF forwarded_subset [OF that]] by (auto dest: schema_accepts)
  then have "list_all exactly_one_of (forwarded ?rs)" by (simp add: list_all_iff)
  moreover have "sent (onData ?L tsend chunk s) = sent s @ forwarded ?rs"
    using onData_loop_char [of ?L tsend "s\<lparr>readBuffer := append_chunk chunk (readBuffer s)\<rparr>"]
    by (simp add: onData_def)
  ultimately have c: "\<exists>ms. sent (onData ?L tsend chunk s) = sent s @ ms \<and> list_all exactly_one_of ms"
    by blast
  have d: "\<not> exactly_one_of j'" if "has_field ''method'' j' \<and> has_field ''result'' j'"
    using that by (simp add: exactly_one_of_def)
  have e: "\<not> exactly_one_of j'" if "has_field ''method'' j' \<and> has_field ''error'' j'"
    using that by (simp add: exactly_one_of_def)
  have f: "\<not> exactly_one_of j'" if "has_field ''result'' j' \<and> has_field ''error'' j'"
    using that by (simp add: exactly_one_of_def)
  have g: "\<not> exactly_one_of j'" if "\<not> has_field ''id'' j'"
    using that by (simp add: exactly_one_of_def)
  let ?rs' = "fst (drain R (append_chunk chunk' (readBuffer s')))"
  have "\<exists>v. schema_parse R v = Some x" if "x \<in> set (forwarded ?rs')" for x
    using drain_validated [OF forwarded_subset [OF that]] .
  moreover have "sent (onData R tsend' chunk' s') = sent s' @ forwarded ?rs'"
    using onData_loop_char [of R tsend' "s'\<lparr>readBuffer := append_chunk chunk' (readBuffer s')\<rparr>"]
    by (simp add: onData_def)
  ultimately have h: "\<exists>ms. sent (onData R tsend' chunk' s') = sent s' @ ms \<and>
      (\<forall>x \<in> set ms. \<exists>v. schema_parse R v = Some x)"
    by blast
  from a b c d e f g h show ?thesis by blast
qed

theorem C2_only_validated_messages_forwarded_witness:
  "readMessage example_runtime (Some (ping_text @ LF # [])) = (Inr (Some ping), Some []) \<and>
   exactly_one_of ping \<and>
   \<not> exactly_one_of both \<and>
   readMessage example_runtime (Some (both_text @ LF # ''rest'')) = (Inl ZodError, Some ''rest'')"
proof -
  let ?s = "\<lparr>readBuffer = None, sent = [], rejections = [], logged = [],
    close_requested = False, exit_code = None\<rparr> :: (int json) bridge"
  let ?t = "\<lambda>(n :: nat) (m :: int json). None :: error option"
  have e: "example_runtime\<lparr>schema_parse := JSONRPCMessageSchema_parse\<rparr> = example_runtime"
    by (simp add: example_runtime_def)
  have h1: "readMessage example_runtime (Some (ping_text @ LF # [])) = (Inr (Some ping), Some [])"
    by (simp add: readMessage_def ex_defs)
  have h2: "LF \<notin> set both_text" by (simp add: LF_def both_text_def)
  have h3: "JSON_parse example_runtime (replace_cr (toString_utf8 example_runtime both_text)) =
    Some both" by (simp add: ex_defs)
  have h4: "has_field ''method'' both \<and> has_field ''result'' both" by (simp add: ex_defs)
  note T = C2_only_validated_messages_forwarded [where L = example_runtime
      and rb = "Some (ping_text @ LF # [])" and m = ping and rb' = "Some []"
      and rec = both_text and j = both and rest = "''rest''" and j' = both
      and tsend = ?t and chunk = "[]" and s = ?s
      and R = example_runtime and tsend' = ?t and chunk' = "[]" and s' = ?s, unfolded e]
  from T [THEN conjunct1] h1 have 1: "exactly_one_of ping" by blast
  from T [THEN conjunct2, THEN conjunct2, THEN conjunct2, THEN conjunct1] h4
  have 2: "\<not> exactly_one_of both" by blast
  from T [THEN conjunct2, THEN conjunct1] h2 h3 2
  have 3: "readMessage example_runtime (Some (both_text @ LF # ''rest'')) =
    (Inl ZodError, Some ''rest'')" by blast
  from h1 1 2 3 show ?thesis by blast
qed

section \<open>Serialising and reading back\<close>



section \<open>The readiness validator: retry only while the path is missing\<close>

lemmas env_defs = late_socket_env_def regular_file_env_def absent_env_def
  validateSocketPermissions_def wake_def SOCKET_READY_TIMEOUT_MS_def SOCKET_READY_INTERVAL_MS_def
  TRANSPORT_READY_TIMEOUT_MS_def TRANSPORT_READY_INTERVAL_MS_def

lemma code_ENOENT: "code e = Some c \<longleftrightarrow> e = ErrnoException c"
  by (cases e) auto

lemma validate_ENOENT:
  "validateSocketPermissions E t p = Inl e \<Longrightarrow> code e = Some c \<Longrightarrow>
   fs_stat E t p = Inl (ErrnoException c)"
  by (auto simp: validateSocketPermissions_def code_ENOENT split: sum.splits if_splits option.splits)

lemma validate_violation:
  "fs_stat E t p = Inr st \<Longrightarrow> validateSocketPermissions E t p = Inl e \<Longrightarrow>
   SecurityViolation e \<and> code e = None"
  by (auto simp: validateSocketPermissions_def SecurityViolation_def
      split: sum.splits if_splits option.splits)

lemma wait_loop_cases:
  assumes "waitForSocketReady_loop E p d now = (r, tr, t')"
  obtains
    (timeout) "\<not> now < d" "r = Inl (Error ''Timed out waiting for daemon socket.'')"
      "tr = []" "t' = now"
  | (pass) "now < d" "validateSocketPermissions E now p = Inr ()" "r = Inr ()"
      "tr = [StatCall p now]" "t' = now + io_took E now"
  | (fatal) e where "now < d" "validateSocketPermissions E now p = Inl e"
      "code e \<noteq> Some ''ENOENT''" "r = Inl e" "tr = [StatCall p now]" "t' = now + io_took E now"
  | (retry) tr0 where "now < d" "fs_stat E now p = Inl (ErrnoException ''ENOENT'')"
      "waitForSocketReady_loop E p d (wake E (now + io_took E now) SOCKET_READY_INTERVAL_MS) =
        (r, tr0, t')"
      "tr = StatCall p now # TimerWait SOCKET_READY_INTERVAL_MS # tr0"
proof (cases "now < d")
  note u = waitForSocketReady_loop.simps [of E p d now]
  case False
  with assms have "r = Inl (Error ''Timed out waiting for daemon socket.'')" "tr = []" "t' = now"
    by (simp_all add: u)
  with False timeout show ?thesis by blast
next
  note u = waitForSocketReady_loop.simps [of E p d now]
  case True
  show ?thesis
  proof (cases "validateSocketPermissions E now p")
    case (Inr x)
    with assms True have "r = Inr ()" "tr = [StatCall p now]" "t' = now + io_took E now"
      by (simp_all add: u)
    with True Inr pass show ?thesis by simp
  next
    case (Inl e)
    show ?thesis
    proof (cases "code e = Some ''ENOENT''")
      case False
      with assms True Inl have "r = Inl e" "tr = [StatCall p now]" "t' = now + io_took E now"
        by (simp_all add: u)
      with True Inl False fatal show ?thesis by blast
    next
      case c: True
      obtain r0 tr0 t0 where rec: "waitForSocketReady_loop E p d
        (wake E (now + io_took E now) SOCKET_READY_INTERVAL_MS) = (r0, tr0, t0)"
        by (metis prod_cases3)
      from assms True Inl c rec
      have "r = r0" "tr = StatCall p now # TimerWait SOCKET_READY_INTERVAL_MS # tr0" "t' = t0"
        by (simp_all add: u)
      with rec validate_ENOENT [OF Inl c] True retry show ?thesis by blast
    qed
  qed
qed

lemma wake_ge: "t + ms \<le> wake E t ms"
  by (simp add: wake_def)

lemma wait_loop_polls:
  "waitForSocketReady_loop E p d now = (r, tr, t') \<Longrightarrow> polls E p tr"
proof (induction E p d now arbitrary: r tr t' rule: waitForSocketReady_loop.induct)
  case (1 E p d now)
  from "1.prems" show ?case
  proof (cases rule: wait_loop_cases)
    case (retry tr0)
    from retry(2) have v: "validateSocketPermissions E now p = Inl (ErrnoException ''ENOENT'')"
      by (simp add: validateSocketPermissions_def)
    from "1.IH" [OF retry(1) v _ retry(3)] have "polls E p tr0" by simp
    with retry show ?thesis by simp
  qed simp_all
qed

lemma wait_loop_times:
  "waitForSocketReady_loop E p d now = (r, tr, t') \<Longrightarrow>
   \<forall>t \<in> set (stat_times tr). now \<le> t \<and> t < d"
proof (induction E p d now arbitrary: r tr t' rule: waitForSocketReady_loop.induct)
  case (1 E p d now)
  from "1.prems" show ?case
  proof (cases rule: wait_loop_cases)
    case (retry tr0)
    from retry(2) have v: "validateSocketPermissions E now p = Inl (ErrnoException ''ENOENT'')"
      by (simp add: validateSocketPermissions_def)
    from "1.IH" [OF retry(1) v _ retry(3)]
    have "\<forall>t \<in> set (stat_times tr0).
      wake E (now + io_took E now) SOCKET_READY_INTERVAL_MS \<le> t \<and> t < d" by simp
    moreover have "now \<le> wake E (now + io_took E now) SOCKET_READY_INTERVAL_MS"
      using wake_ge [of "now + io_took E now" SOCKET_READY_INTERVAL_MS E] by simp
    ultimately show ?thesis using retry by auto
  qed simp_all
qed

lemma wait_loop_end:
  "waitForSocketReady_loop E p d now = (r, tr, t') \<Longrightarrow>
   (r = Inr () \<and> (\<exists>t. tr \<noteq> [] \<and> last tr = StatCall p t \<and>
      validateSocketPermissions E t p = Inr ())) \<or>
   (\<exists>e t. r = Inl e \<and> tr \<noteq> [] \<and> last tr = StatCall p t \<and>
      validateSocketPermissions E t p = Inl e \<and> code e \<noteq> Some ''ENOENT'') \<or>
   (r = Inl (Error ''Timed out waiting for daemon socket.'') \<and> d \<le> t' \<and>
      (tr = [] \<or> last tr = TimerWait SOCKET_READY_INTERVAL_MS))"
proof (induction E p d now arbitrary: r tr t' rule: waitForSocketReady_loop.induct)
  case (1 E p d now)
  from "1.prems" show ?case
  proof (cases rule: wait_loop_cases)
    case (retry tr0)
    from retry(2) have v: "validateSocketPermissions E now p = Inl (ErrnoException ''ENOENT'')"
      by (simp add: validateSocketPermissions_def)
    from "1.IH" [OF retry(1) v _ retry(3)] retry(4) show ?thesis
      by (auto simp: last_ConsR)
  qed auto
qed

lemma wait_loop_absent:
  "\<forall>t. fs_stat E t p = Inl (ErrnoException ''ENOENT'') \<Longrightarrow>
   waitForSocketReady_loop E p d now = (r, tr, t') \<Longrightarrow>
   r = Inl (Error ''Timed out waiting for daemon socket.'') \<and> d \<le> t'"
proof (induction E p d now arbitrary: r tr t' rule: waitForSocketReady_loop.induct)
  case (1 E p d now)
  from "1.prems"(2) show ?case
  proof (cases rule: wait_loop_cases)
    case (retry tr0)
    from retry(2) have v: "validateSocketPermissions E now p = Inl (ErrnoException ''ENOENT'')"
      by (simp add: validateSocketPermissions_def)
    from "1.IH" [OF retry(1) v _ "1.prems"(1) retry(3)] show ?thesis by simp
  next
    case pass
    with "1.prems"(1) show ?thesis by (simp add: validateSocketPermissions_def)
  next
    case (fatal e)
    with "1.prems"(1) show ?thesis by (auto simp: validateSocketPermissions_def)
  qed simp_all
qed

lemma wait_loop_existing:
  assumes "t < d" and "fs_stat E t p = Inr st"
  shows "waitForSocketReady_loop E p d t =
    ((if \<not> isSocket st then Inl (Error ''Socket path is not a Unix domain socket.'')
      else if mode st AND 511 \<noteq> 384 then Inl (Error ''Socket permissions must be 600.'')
      else (case getuid E of
              None \<Rightarrow> Inr ()
            | Some u \<Rightarrow>
                if uid st \<noteq> u then Inl (Error ''Socket owner does not match current user.'')
                else Inr ())),
     [StatCall p t], t + io_took E t)"
  using assms
  by (simp add: waitForSocketReady_loop.simps [of E p d t] validateSocketPermissions_def
      split: option.splits)

text \<open>
  Claim C4. In every run of \<open>waitForSocketReady\<close>: each attempt that is followed by
  another one found the path missing and was followed by a wait of the fixed 200 ms, and
  every attempt starts before the deadline (3000 ms after the start). The run ends in
  one of three ways: the last attempt passed; or the last attempt failed with an error
  other than \<open>ENOENT\<close>, which is thrown as it is, with nothing after that attempt; or
  the deadline has passed and the error is the timeout. An attempt, at any time before
  any deadline, that finds the path existing but failing the type, mode or owner check
  ends the run at once with that security violation; an attempt that finds the path
  missing waits the interval and tries again. A regular file at the first attempt gives
  the violation after one \<open>fs.stat\<close> and no wait. A path that is always missing gives
  the timeout, at or after the deadline. Which paths fail: at any time before any
  deadline, a path that exists and is not a socket, a socket whose permission bits are
  not \<open>0o600\<close>, and a socket of mode \<open>0o600\<close> whose owner is not the user id
  \<open>process.getuid()\<close> returns, each end the run at that attempt with the error of that
  check, after one \<open>fs.stat\<close> and no wait; a socket of mode \<open>0o600\<close> owned by that
  user (or any socket of that mode when there is no \<open>process.getuid\<close>) passes at that
  attempt.
\<close>

theorem C4_readiness_retry_policy:
  assumes "waitForSocketReady E p now = (r, tr, t')"
  shows "polls E p tr \<and>
    (\<forall>t \<in> set (stat_times tr). now \<le> t \<and> t < now + SOCKET_READY_TIMEOUT_MS) \<and>
    ((r = Inr () \<and> (\<exists>t. tr \<noteq> [] \<and> last tr = StatCall p t \<and>
        validateSocketPermissions E t p = Inr ())) \<or>
     (\<exists>e t. r = Inl e \<and> tr \<noteq> [] \<and> last tr = StatCall p t \<and>
        validateSocketPermissions E t p = Inl e \<and> code e \<noteq> Some ''ENOENT'') \<or>
     (r = Inl (Error ''Timed out waiting for daemon socket.'') \<and>
        now + SOCKET_READY_TIMEOUT_MS \<le> t' \<and>
        (tr = [] \<or> last tr = TimerWait SOCKET_READY_INTERVAL_MS))) \<and>
    (\<forall>d t st e.
       t < d \<and> fs_stat E t p = Inr st \<and> validateSocketPermissions E t p = Inl e \<longrightarrow>
       SecurityViolation e \<and>
       waitForSocketReady_loop E p d t = (Inl e, [StatCall p t], t + io_took E t)) \<and>
    (\<forall>d t. t < d \<and> fs_stat E t p = Inl (ErrnoException ''ENOENT'') \<longrightarrow>
       fst (snd (waitForSocketReady_loop E p d t)) =
         StatCall p t # TimerWait SOCKET_READY_INTERVAL_MS #
         fst (snd (waitForSocketReady_loop E p d
           (wake E (t + io_took E t) SOCKET_READY_INTERVAL_MS))) \<and>
       fst (waitForSocketReady_loop E p d t) =
         fst (waitForSocketReady_loop E p d
           (wake E (t + io_took E t) SOCKET_READY_INTERVAL_MS)) \<and>
       t + SOCKET_READY_INTERVAL_MS \<le> wake E (t + io_took E t) SOCKET_READY_INTERVAL_MS) \<and>
    (\<forall>st. fs_stat E now p = Inr st \<and> \<not> isSocket st \<longrightarrow>
       r = Inl (Error ''Socket path is not a Unix domain socket.'') \<and> tr = [StatCall p now]) \<and>
    ((\<forall>t. fs_stat E t p = Inl (ErrnoException ''ENOENT'')) \<longrightarrow>
       r = Inl (Error ''Timed out waiting for daemon socket.'') \<and>
       now + SOCKET_READY_TIMEOUT_MS \<le> t') \<and>
    (\<forall>d t st. t < d \<and> fs_stat E t p = Inr st \<and> \<not> isSocket st \<longrightarrow>
       waitForSocketReady_loop E p d t =
         (Inl (Error ''Socket path is not a Unix domain socket.''), [StatCall p t],
          t + io_took E t)) \<and>
    (\<forall>d t st. t < d \<and> fs_stat E t p = Inr st \<and> isSocket st \<and> mode st AND 511 \<noteq> 384 \<longrightarrow>
       waitForSocketReady_loop E p d t =
         (Inl (Error ''Socket permissions must be 600.''), [StatCall p t], t + io_took E t)) \<and>
    (\<forall>d t st u. t < d \<and> fs_stat E t p = Inr st \<and> isSocket st \<and> mode st AND 511 = 384 \<and>
         getuid E = Some u \<and> uid st \<noteq> u \<longrightarrow>
       waitForSocketReady_loop E p d t =
         (Inl (Error ''Socket owner does not match current user.''), [StatCall p t],
          t + io_took E t)) \<and>
    (\<forall>d t st. t < d \<and> fs_stat E t p = Inr st \<and> isSocket st \<and> mode st AND 511 = 384 \<and>
         (getuid E = None \<or> getuid E = Some (uid st)) \<longrightarrow>
       waitForSocketReady_loop E p d t = (Inr (), [StatCall p t], t + io_took E t)) \<and>
    (\<forall>st. fs_stat E now p = Inr st \<and> isSocket st \<and> mode st AND 511 \<noteq> 384 \<longrightarrow>
       r = Inl (Error ''Socket permissions must be 600.'') \<and> tr = [StatCall p now]) \<and>
    (\<forall>st u. fs_stat E now p = Inr st \<and> isSocket st \<and> mode st AND 511 = 384 \<and>
         getuid E = Some u \<and> uid st \<noteq> u \<longrightarrow>
       r = Inl (Error ''Socket owner does not match current user.'') \<and> tr = [StatCall p now])"
proof -
  from assms have loop: "waitForSocketReady_loop E p (now + SOCKET_READY_TIMEOUT_MS) now = (r, tr, t')"
    by (simp add: waitForSocketReady_def)
  have fatal: "SecurityViolation e \<and>
      waitForSocketReady_loop E p d t = (Inl e, [StatCall p t], t + io_took E t)"
    if "t < d \<and> fs_stat E t p = Inr st \<and> validateSocketPermissions E t p = Inl e" for t st e d
  proof -
    from that have v: "SecurityViolation e \<and> code e = None"
      by (intro validate_violation [of E t p st e]) simp_all
    with that show ?thesis
      by (simp add: waitForSocketReady_loop.simps [of E p d t])
  qed
  have retry: "fst (snd (waitForSocketReady_loop E p d t)) =
         StatCall p t # TimerWait SOCKET_READY_INTERVAL_MS #
         fst (snd (waitForSocketReady_loop E p d
           (wake E (t + io_took E t) SOCKET_READY_INTERVAL_MS))) \<and>
       fst (waitForSocketReady_loop E p d t) =
         fst (waitForSocketReady_loop E p d
           (wake E (t + io_took E t) SOCKET_READY_INTERVAL_MS)) \<and>
       t + SOCKET_READY_INTERVAL_MS \<le> wake E (t + io_took E t) SOCKET_READY_INTERVAL_MS"
    if "t < d \<and> fs_stat E t p = Inl (ErrnoException ''ENOENT'')" for t d
    using that
    by (simp add: waitForSocketReady_loop.simps [of E p d t] validateSocketPermissions_def
        wake_def split: prod.splits)
  have regular: "r = Inl (Error ''Socket path is not a Unix domain socket.'') \<and> tr = [StatCall p now]"
    if "fs_stat E now p = Inr st \<and> \<not> isSocket st" for st
  proof -
    from that have "validateSocketPermissions E now p =
      Inl (Error ''Socket path is not a Unix domain socket.'')"
      by (simp add: validateSocketPermissions_def)
    with that fatal [of now "now + SOCKET_READY_TIMEOUT_MS" st
        "Error ''Socket path is not a Unix domain socket.''"] loop
    show ?thesis
      by (simp add: SOCKET_READY_TIMEOUT_MS_def)
  qed
  have absent: "r = Inl (Error ''Timed out waiting for daemon socket.'') \<and>
       now + SOCKET_READY_TIMEOUT_MS \<le> t'"
    if "\<forall>t. fs_stat E t p = Inl (ErrnoException ''ENOENT'')"
    using wait_loop_absent [OF that loop] .
  have c1: "polls E p tr" by (rule wait_loop_polls [OF loop])
  have c2: "\<forall>t \<in> set (stat_times tr). now \<le> t \<and> t < now + SOCKET_READY_TIMEOUT_MS"
    by (rule wait_loop_times [OF loop])
  note c3 = wait_loop_end [OF loop]
  from fatal have c4: "\<forall>d t st e.
       t < d \<and> fs_stat E t p = Inr st \<and> validateSocketPermissions E t p = Inl e \<longrightarrow>
       SecurityViolation e \<and>
       waitForSocketReady_loop E p d t = (Inl e, [StatCall p t], t + io_took E t)"
    by (intro allI impI)
  from retry have c5: "\<forall>d t. t < d \<and> fs_stat E t p = Inl (ErrnoException ''ENOENT'') \<longrightarrow>
       fst (snd (waitForSocketReady_loop E p d t)) =
         StatCall p t # TimerWait SOCKET_READY_INTERVAL_MS #
         fst (snd (waitForSocketReady_loop E p d
           (wake E (t + io_took E t) SOCKET_READY_INTERVAL_MS))) \<and>
       fst (waitForSocketReady_loop E p d t) =
         fst (waitForSocketReady_loop E p d
           (wake E (t + io_took E t) SOCKET_READY_INTERVAL_MS)) \<and>
       t + SOCKET_READY_INTERVAL_MS \<le> wake E (t + io_took E t) SOCKET_READY_INTERVAL_MS"
    by (intro allI impI)
  from regular have c6: "\<forall>st. fs_stat E now p = Inr st \<and> \<not> isSocket st \<longrightarrow>
       r = Inl (Error ''Socket path is not a Unix domain socket.'') \<and> tr = [StatCall p now]"
    by (intro allI impI)
  from absent have c7: "(\<forall>t. fs_stat E t p = Inl (ErrnoException ''ENOENT'')) \<longrightarrow>
       r = Inl (Error ''Timed out waiting for daemon socket.'') \<and>
       now + SOCKET_READY_TIMEOUT_MS \<le> t'"
    by (intro impI)
  have first: "now < now + SOCKET_READY_TIMEOUT_MS"
    by (simp add: SOCKET_READY_TIMEOUT_MS_def)
  have c8: "\<forall>d t st. t < d \<and> fs_stat E t p = Inr st \<and> \<not> isSocket st \<longrightarrow>
       waitForSocketReady_loop E p d t =
         (Inl (Error ''Socket path is not a Unix domain socket.''), [StatCall p t],
          t + io_took E t)"
    by (simp add: wait_loop_existing)
  have c9: "\<forall>d t st. t < d \<and> fs_stat E t p = Inr st \<and> isSocket st \<and> mode st AND 511 \<noteq> 384 \<longrightarrow>
       waitForSocketReady_loop E p d t =
         (Inl (Error ''Socket permissions must be 600.''), [StatCall p t], t + io_took E t)"
    by (simp add: wait_loop_existing)
  have c10: "\<forall>d t st u. t < d \<and> fs_stat E t p = Inr st \<and> isSocket st \<and> mode st AND 511 = 384 \<and>
         getuid E = Some u \<and> uid st \<noteq> u \<longrightarrow>
       waitForSocketReady_loop E p d t =
         (Inl (Error ''Socket owner does not match current user.''), [StatCall p t],
          t + io_took E t)"
    by (simp add: wait_loop_existing)
  have c11: "\<forall>d t st. t < d \<and> fs_stat E t p = Inr st \<and> isSocket st \<and> mode st AND 511 = 384 \<and>
         (getuid E = None \<or> getuid E = Some (uid st)) \<longrightarrow>
       waitForSocketReady_loop E p d t = (Inr (), [StatCall p t], t + io_took E t)"
    by (auto simp: wait_loop_existing)
  have c12: "\<forall>st. fs_stat E now p = Inr st \<and> isSocket st \<and> mode st AND 511 \<noteq> 384 \<longrightarrow>
       r = Inl (Error ''Socket permissions must be 600.'') \<and> tr = [StatCall p now]"
    using loop first by (auto simp: wait_loop_existing)
  have c13: "\<forall>st u. fs_stat E now p = Inr st \<and> isSocket st \<and> mode st AND 511 = 384 \<and>
         getuid E = Some u \<and> uid st \<noteq> u \<longrightarrow>
       r = Inl (Error ''Socket owner does not match current user.'') \<and> tr = [StatCall p now]"
    using loop first by (auto simp: wait_loop_existing)
  from c1 c2 c3 c4 c5 c6 c7 c8 c9 c10 c11 c12 c13 show ?thesis
    by (intro conjI)
qed

theorem C4_readiness_retry_policy_witness:
  "waitForSocketReady late_socket_env ''/run/child.sock'' 0 =
     (Inr (),
      [StatCall ''/run/child.sock'' 0, TimerWait 200, StatCall ''/run/child.sock'' 200,
       TimerWait 200, StatCall ''/run/child.sock'' 400, TimerWait 200,
       StatCall ''/run/child.sock'' 600], 600) \<and>
   polls late_socket_env ''/run/child.sock''
     [StatCall ''/run/child.sock'' 0, TimerWait 200, StatCall ''/run/child.sock'' 200,
      TimerWait 200, StatCall ''/run/child.sock'' 400, TimerWait 200,
      StatCall ''/run/child.sock'' 600] \<and>
   fst (waitForSocketReady regular_file_env ''/run/child.sock'' 0) =
     Inl (Error ''Socket path is not a Unix domain socket.'') \<and>
   fst (snd (waitForSocketReady regular_file_env ''/run/child.sock'' 0)) =
     [StatCall ''/run/child.sock'' 0] \<and>
   fst (waitForSocketReady absent_env ''/run/child.sock'' 0) =
     Inl (Error ''Timed out waiting for daemon socket.'') \<and>
   3000 \<le> snd (snd (waitForSocketReady absent_env ''/run/child.sock'' 0)) \<and>
   fst (waitForSocketReady
     (late_socket_env\<lparr>fs_stat := \<lambda>t p. Inr \<lparr>isSocket = True, mode = 49572, uid = 1000\<rparr>\<rparr>)
     ''/run/child.sock'' 0) = Inl (Error ''Socket permissions must be 600.'') \<and>
   fst (snd (waitForSocketReady
     (late_socket_env\<lparr>fs_stat := \<lambda>t p. Inr \<lparr>isSocket = True, mode = 49572, uid = 1000\<rparr>\<rparr>)
     ''/run/child.sock'' 0)) = [StatCall ''/run/child.sock'' 0] \<and>
   fst (waitForSocketReady (late_socket_env\<lparr>getuid := Some 0\<rparr>) ''/run/child.sock'' 600) =
     Inl (Error ''Socket owner does not match current user.'') \<and>
   fst (snd (waitForSocketReady (late_socket_env\<lparr>getuid := Some 0\<rparr>) ''/run/child.sock'' 600)) =
     [StatCall ''/run/child.sock'' 600]"
proof -
  let ?p = "''/run/child.sock''"
  let ?m = "late_socket_env\<lparr>fs_stat := \<lambda>t p. Inr \<lparr>isSocket = True, mode = 49572, uid = 1000\<rparr>\<rparr>"
  let ?o = "late_socket_env\<lparr>getuid := Some 0\<rparr>"
  have a: "waitForSocketReady late_socket_env ?p 0 =
     (Inr (),
      [StatCall ?p 0, TimerWait 200, StatCall ?p 200, TimerWait 200, StatCall ?p 400,
       TimerWait 200, StatCall ?p 600], 600)"
    by (simp add: waitForSocketReady_def waitForSocketReady_loop.simps env_defs)
  obtain r tr t' where b: "waitForSocketReady regular_file_env ?p 0 = (r, tr, t')"
    by (metis prod_cases3)
  obtain r2 tr2 t2 where c: "waitForSocketReady absent_env ?p 0 = (r2, tr2, t2)"
    by (metis prod_cases3)
  obtain r3 tr3 t3 where d: "waitForSocketReady ?m ?p 0 = (r3, tr3, t3)"
    by (metis prod_cases3)
  obtain r4 tr4 t4 where e: "waitForSocketReady ?o ?p 600 = (r4, tr4, t4)"
    by (metis prod_cases3)
  have hb: "fs_stat regular_file_env 0 ?p = Inr \<lparr>isSocket = False, mode = 33188, uid = 1000\<rparr>"
    by (simp add: regular_file_env_def)
  have hc: "\<forall>t. fs_stat absent_env t ?p = Inl (ErrnoException ''ENOENT'')"
    by (simp add: absent_env_def)
  have hd: "fs_stat ?m 0 ?p = Inr \<lparr>isSocket = True, mode = 49572, uid = 1000\<rparr> \<and>
    isSocket \<lparr>isSocket = True, mode = 49572, uid = 1000\<rparr> \<and>
    mode \<lparr>isSocket = True, mode = 49572, uid = 1000\<rparr> AND 511 \<noteq> 384"
    by simp
  have he: "fs_stat ?o 600 ?p = Inr \<lparr>isSocket = True, mode = 49536, uid = 1000\<rparr> \<and>
    isSocket \<lparr>isSocket = True, mode = 49536, uid = 1000\<rparr> \<and>
    mode \<lparr>isSocket = True, mode = 49536, uid = 1000\<rparr> AND 511 = 384 \<and>
    getuid ?o = Some 0 \<and> uid \<lparr>isSocket = True, mode = 49536, uid = 1000\<rparr> \<noteq> 0"
    by (simp add: late_socket_env_def)
  from C4_readiness_retry_policy [OF a]
  have 1: "polls late_socket_env ?p
     [StatCall ?p 0, TimerWait 200, StatCall ?p 200, TimerWait 200, StatCall ?p 400,
      TimerWait 200, StatCall ?p 600]" by (rule conjunct1)
  note Tb = C4_readiness_retry_policy [OF b]
  note Tb6 = Tb [THEN conjunct2, THEN conjunct2, THEN conjunct2, THEN conjunct2, THEN conjunct2,
    THEN conjunct1]
  from Tb6 hb have 2: "r = Inl (Error ''Socket path is not a Unix domain socket.'') \<and>
    tr = [StatCall ?p 0]" by simp
  note Tc = C4_readiness_retry_policy [OF c]
  note Tc7 = Tc [THEN conjunct2, THEN conjunct2, THEN conjunct2, THEN conjunct2, THEN conjunct2,
    THEN conjunct2, THEN conjunct1]
  from Tc7 hc have 3: "r2 = Inl (Error ''Timed out waiting for daemon socket.'') \<and>
    0 + SOCKET_READY_TIMEOUT_MS \<le> t2" by simp
  from 3 have 4: "3000 \<le> t2" by (simp add: SOCKET_READY_TIMEOUT_MS_def)
  note Td = C4_readiness_retry_policy [OF d]
  note Td12 = Td [THEN conjunct2, THEN conjunct2, THEN conjunct2, THEN conjunct2, THEN conjunct2,
    THEN conjunct2, THEN conjunct2, THEN conjunct2, THEN conjunct2, THEN conjunct2,
    THEN conjunct2, THEN conjunct1, rule_format, OF hd]
  note Te = C4_readiness_retry_policy [OF e]
  note Te13 = Te [THEN conjunct2, THEN conjunct2, THEN conjunct2, THEN conjunct2, THEN conjunct2,
    THEN conjunct2, THEN conjunct2, THEN conjunct2, THEN conjunct2, THEN conjunct2,
    THEN conjunct2, THEN conjunct2, rule_format, OF he]
  from a 1 2 3 4 Td12 Te13 show ?thesis
    unfolding b c d e fst_conv snd_conv by blast
qed

section \<open>The owner check needs \<open>process.getuid\<close>\<close>



section \<open>The bridge validates first, then connects\<close>

lemma start_loop_cases:
  assumes "startTransport_loop E d le now = (r, tr, t')"
  obtains
    (deadline) "\<not> now < d"
      "r = Inl (case le of Some e \<Rightarrow> e | None \<Rightarrow> Error ''Timed out waiting for daemon transport.'')"
      "tr = []" "t' = now"
  | (started) "now < d" "transport_start E now = None" "r = Inr ()"
      "tr = [ConnectCall now]" "t' = now + io_took E now"
  | (fatal) e where "now < d" "transport_start E now = Some e"
      "code e \<noteq> Some ''ECONNREFUSED''" "r = Inl e" "tr = [ConnectCall now]"
      "t' = now + io_took E now"
  | (retry) tr0 where "now < d" "transport_start E now = Some (ErrnoException ''ECONNREFUSED'')"
      "startTransport_loop E d (Some (ErrnoException ''ECONNREFUSED''))
         (wake E (now + io_took E now) TRANSPORT_READY_INTERVAL_MS) = (r, tr0, t')"
      "tr = ConnectCall now # TimerWait TRANSPORT_READY_INTERVAL_MS # tr0"
proof (cases "now < d")
  note u = startTransport_loop.simps [of E d le now]
  case False
  with assms have "r = Inl (case le of Some e \<Rightarrow> e
      | None \<Rightarrow> Error ''Timed out waiting for daemon transport.'')" "tr = []" "t' = now"
    by (simp_all add: u)
  with False deadline show ?thesis by blast
next
  note u = startTransport_loop.simps [of E d le now]
  case True
  show ?thesis
  proof (cases "transport_start E now")
    case None
    with assms True have "r = Inr ()" "tr = [ConnectCall now]" "t' = now + io_took E now"
      by (simp_all add: u)
    with True None started show ?thesis by simp
  next
    case (Some e)
    show ?thesis
    proof (cases "code e = Some ''ECONNREFUSED''")
      case False
      with assms True Some have "r = Inl e" "tr = [ConnectCall now]" "t' = now + io_took E now"
        by (simp_all add: u)
      with True Some False fatal show ?thesis by blast
    next
      case c: True
      then have e: "e = ErrnoException ''ECONNREFUSED''" by (simp add: code_ENOENT)
      obtain r0 tr0 t0 where rec: "startTransport_loop E d (Some e)
        (wake E (now + io_took E now) TRANSPORT_READY_INTERVAL_MS) = (r0, tr0, t0)"
        by (metis prod_cases3)
      from assms True Some c rec
      have "r = r0" "tr = ConnectCall now # TimerWait TRANSPORT_READY_INTERVAL_MS # tr0" "t' = t0"
        by (simp_all add: u)
      with rec Some e True retry show ?thesis by blast
    qed
  qed
qed

lemma start_loop_shape:
  "startTransport_loop E d le now = (r, tr, t') \<Longrightarrow>
   connects E tr \<and> stat_times tr = [] \<and> (\<forall>t \<in> set (connect_times tr). now \<le> t \<and> t < d)"
proof (induction E d le now arbitrary: r tr t' rule: startTransport_loop.induct)
  case (1 E d le now)
  from "1.prems" show ?case
  proof (cases rule: start_loop_cases)
    case (retry tr0)
    from "1.IH" [OF retry(1,2) _ retry(3)]
    have "connects E tr0 \<and> stat_times tr0 = [] \<and>
      (\<forall>t \<in> set (connect_times tr0).
         wake E (now + io_took E now) TRANSPORT_READY_INTERVAL_MS \<le> t \<and> t < d)" by simp
    moreover have "now \<le> wake E (now + io_took E now) TRANSPORT_READY_INTERVAL_MS"
      using wake_ge [of "now + io_took E now" TRANSPORT_READY_INTERVAL_MS E] by simp
    ultimately show ?thesis using retry by auto
  qed simp_all
qed

lemma start_loop_end:
  "startTransport_loop E d le now = (r, tr, t') \<Longrightarrow>
   (r = Inr () \<and> (\<exists>t. tr \<noteq> [] \<and> last tr = ConnectCall t \<and> transport_start E t = None)) \<or>
   (\<exists>e t. r = Inl e \<and> tr \<noteq> [] \<and> last tr = ConnectCall t \<and>
      transport_start E t = Some e \<and> code e \<noteq> Some ''ECONNREFUSED'') \<or>
   (d \<le> t' \<and>
      (tr = [] \<and> r = Inl (case le of Some e \<Rightarrow> e
                          | None \<Rightarrow> Error ''Timed out waiting for daemon transport.'') \<or>
       tr \<noteq> [] \<and> last tr = TimerWait TRANSPORT_READY_INTERVAL_MS \<and>
         r = Inl (ErrnoException ''ECONNREFUSED'')))"
proof (induction E d le now arbitrary: r tr t' rule: startTransport_loop.induct)
  case (1 E d le now)
  from "1.prems" show ?case
  proof (cases rule: start_loop_cases)
    case (retry tr0)
    from "1.IH" [OF retry(1,2) _ retry(3)] retry(4) show ?thesis
      by (auto simp: last_ConsR)
  qed auto
qed

lemma wait_loop_no_connect:
  "waitForSocketReady_loop E p d now = (r, tr, t') \<Longrightarrow> connect_times tr = []"
proof (induction E p d now arbitrary: r tr t' rule: waitForSocketReady_loop.induct)
  case (1 E p d now)
  from "1.prems" show ?case
  proof (cases rule: wait_loop_cases)
    case (retry tr0)
    from retry(2) have v: "validateSocketPermissions E now p = Inl (ErrnoException ''ENOENT'')"
      by (simp add: validateSocketPermissions_def)
    from "1.IH" [OF retry(1) v _ retry(3)] retry(4) show ?thesis by simp
  qed simp_all
qed

lemma connect_times_append [simp]: "connect_times (xs @ ys) = connect_times xs @ connect_times ys"
  by (induction xs rule: connect_times.induct) simp_all

text \<open>
  Claim C5. In every run of \<open>runDaemonProxy\<close> the validator's run holds no connection
  attempt. When the validator fails, \<open>runDaemonProxy\<close> throws the same error after
  logging it, and no connection attempt is made at all. When it passes, the events
  that follow are those of \<open>startTransport\<close> started at the time the validator
  finished: no \<open>fs.stat\<close> among them, every attempt before the connect deadline
  (2000 ms after that time), every attempt that is followed by another one was refused
  and was followed by a wait of the fixed 200 ms; the run ends with a successful
  attempt, or with an attempt that failed with an error other than \<open>ECONNREFUSED\<close>,
  thrown as it is with nothing after it, or past the deadline with the last refusal.
  An attempt at any time before any deadline that fails with another error ends the
  loop at once with that error.
\<close>

theorem C5_validate_then_connect:
  assumes "runDaemonProxy E p now = (r, tr, t')"
    and "waitForSocketReady E p now = (rv, trv, tv)"
  shows "connect_times trv = [] \<and>
    (\<forall>e. rv = Inl e \<longrightarrow>
       r = Inl e \<and> t' = tv \<and> connect_times tr = [] \<and>
       tr = trv @ [Logged (LogError ''MCP daemon socket validation failed'' e)]) \<and>
    (rv = Inr () \<longrightarrow>
       (\<exists>trc. tr = trv @ trc \<and> startTransport E tv = (r, trc, t') \<and>
          stat_times trc = [] \<and> connects E trc \<and>
          (\<forall>t \<in> set (connect_times trc). tv \<le> t \<and> t < tv + TRANSPORT_READY_TIMEOUT_MS) \<and>
          ((r = Inr () \<and> (\<exists>t. last trc = ConnectCall t \<and> transport_start E t = None)) \<or>
           (\<exists>e t. r = Inl e \<and> last trc = ConnectCall t \<and> transport_start E t = Some e \<and>
              code e \<noteq> Some ''ECONNREFUSED'') \<or>
           (r = Inl (ErrnoException ''ECONNREFUSED'') \<and> tv + TRANSPORT_READY_TIMEOUT_MS \<le> t' \<and>
              last trc = TimerWait TRANSPORT_READY_INTERVAL_MS)))) \<and>
    (\<forall>t e le d. t < d \<and> transport_start E t = Some e \<and> code e \<noteq> Some ''ECONNREFUSED'' \<longrightarrow>
       startTransport_loop E d le t = (Inl e, [ConnectCall t], t + io_took E t))"
proof (intro conjI)
  from assms(2) show nc: "connect_times trv = []"
    by (auto simp: waitForSocketReady_def dest: wait_loop_no_connect)
  show "\<forall>e. rv = Inl e \<longrightarrow>
       r = Inl e \<and> t' = tv \<and> connect_times tr = [] \<and>
       tr = trv @ [Logged (LogError ''MCP daemon socket validation failed'' e)]"
    using assms nc by (auto simp: runDaemonProxy_def)
  show "rv = Inr () \<longrightarrow>
       (\<exists>trc. tr = trv @ trc \<and> startTransport E tv = (r, trc, t') \<and>
          stat_times trc = [] \<and> connects E trc \<and>
          (\<forall>t \<in> set (connect_times trc). tv \<le> t \<and> t < tv + TRANSPORT_READY_TIMEOUT_MS) \<and>
          ((r = Inr () \<and> (\<exists>t. last trc = ConnectCall t \<and> transport_start E t = None)) \<or>
           (\<exists>e t. r = Inl e \<and> last trc = ConnectCall t \<and> transport_start E t = Some e \<and>
              code e \<noteq> Some ''ECONNREFUSED'') \<or>
           (r = Inl (ErrnoException ''ECONNREFUSED'') \<and> tv + TRANSPORT_READY_TIMEOUT_MS \<le> t' \<and>
              last trc = TimerWait TRANSPORT_READY_INTERVAL_MS)))"
  proof
    assume ok: "rv = Inr ()"
    obtain rc trc tc where st: "startTransport E tv = (rc, trc, tc)" by (metis prod_cases3)
    with assms ok have eq: "r = rc" "tr = trv @ trc" "t' = tc"
      by (simp_all add: runDaemonProxy_def)
    from st have loop: "startTransport_loop E (tv + TRANSPORT_READY_TIMEOUT_MS) None tv = (rc, trc, tc)"
      by (simp add: startTransport_def)
    have first: "trc \<noteq> []"
      using loop by (cases rule: start_loop_cases) (simp_all add: TRANSPORT_READY_TIMEOUT_MS_def)
    from start_loop_end [OF loop] first
    have "(rc = Inr () \<and> (\<exists>t. last trc = ConnectCall t \<and> transport_start E t = None)) \<or>
           (\<exists>e t. rc = Inl e \<and> last trc = ConnectCall t \<and> transport_start E t = Some e \<and>
              code e \<noteq> Some ''ECONNREFUSED'') \<or>
           (rc = Inl (ErrnoException ''ECONNREFUSED'') \<and> tv + TRANSPORT_READY_TIMEOUT_MS \<le> tc \<and>
              last trc = TimerWait TRANSPORT_READY_INTERVAL_MS)"
      by blast
    with start_loop_shape [OF loop] st eq
    show "\<exists>trc. tr = trv @ trc \<and> startTransport E tv = (r, trc, t') \<and>
          stat_times trc = [] \<and> connects E trc \<and>
          (\<forall>t \<in> set (connect_times trc). tv \<le> t \<and> t < tv + TRANSPORT_READY_TIMEOUT_MS) \<and>
          ((r = Inr () \<and> (\<exists>t. last trc = ConnectCall t \<and> transport_start E t = None)) \<or>
           (\<exists>e t. r = Inl e \<and> last trc = ConnectCall t \<and> transport_start E t = Some e \<and>
              code e \<noteq> Some ''ECONNREFUSED'') \<or>
           (r = Inl (ErrnoException ''ECONNREFUSED'') \<and> tv + TRANSPORT_READY_TIMEOUT_MS \<le> t' \<and>
              last trc = TimerWait TRANSPORT_READY_INTERVAL_MS))"
      by (intro exI [of _ trc]) simp
  qed
  show "\<forall>t e le d. t < d \<and> transport_start E t = Some e \<and> code e \<noteq> Some ''ECONNREFUSED'' \<longrightarrow>
       startTransport_loop E d le t = (Inl e, [ConnectCall t], t + io_took E t)"
    by (auto simp: startTransport_loop.simps [of E _ _ _])
qed

theorem C5_validate_then_connect_witness:
  "runDaemonProxy late_socket_env ''/run/child.sock'' 0 =
     (Inr (),
      [StatCall ''/run/child.sock'' 0, TimerWait 200, StatCall ''/run/child.sock'' 200,
       TimerWait 200, StatCall ''/run/child.sock'' 400, TimerWait 200,
       StatCall ''/run/child.sock'' 600,
       ConnectCall 600, TimerWait 200, ConnectCall 800, TimerWait 200, ConnectCall 1000],
      1000) \<and>
   connects late_socket_env
     [ConnectCall 600, TimerWait 200, ConnectCall 800, TimerWait 200, ConnectCall 1000] \<and>
   fst (runDaemonProxy regular_file_env ''/run/child.sock'' 0) =
     Inl (Error ''Socket path is not a Unix domain socket.'') \<and>
   connect_times (fst (snd (runDaemonProxy regular_file_env ''/run/child.sock'' 0))) = [] \<and>
   startTransport_loop absent_env 2000 None 0 =
     (Inl (ErrnoException ''EACCES''), [ConnectCall 0], 0)"
proof -
  let ?p = "''/run/child.sock''"
  let ?trv = "[StatCall ?p 0, TimerWait 200, StatCall ?p 200, TimerWait 200, StatCall ?p 400,
       TimerWait 200, StatCall ?p 600]"
  let ?trc = "[ConnectCall 600, TimerWait 200, ConnectCall 800, TimerWait 200, ConnectCall 1000]"
  have v: "waitForSocketReady late_socket_env ?p 0 = (Inr (), ?trv, 600)"
    by (simp add: waitForSocketReady_def waitForSocketReady_loop.simps env_defs)
  have s: "startTransport late_socket_env 600 = (Inr (), ?trc, 1000)"
    by (simp add: startTransport_def startTransport_loop.simps env_defs)
  have a: "runDaemonProxy late_socket_env ?p 0 = (Inr (), ?trv @ ?trc, 1000)"
    by (simp add: runDaemonProxy_def v s)
  note Ta = C5_validate_then_connect [OF a v]
  from Ta [THEN conjunct2, THEN conjunct2, THEN conjunct1]
  obtain trc where trc: "?trv @ ?trc = ?trv @ trc" "connects late_socket_env trc"
    by blast
  from trc(1) have "trc = ?trc" by simp
  with trc(2) have 1: "connects late_socket_env ?trc" by simp
  have v2: "waitForSocketReady regular_file_env ?p 0 =
    (Inl (Error ''Socket path is not a Unix domain socket.''), [StatCall ?p 0], 0)"
    by (simp add: waitForSocketReady_def waitForSocketReady_loop.simps env_defs)
  obtain r tr t' where b: "runDaemonProxy regular_file_env ?p 0 = (r, tr, t')"
    by (metis prod_cases3)
  note Tb = C5_validate_then_connect [OF b v2]
  from Tb [THEN conjunct2, THEN conjunct1]
  have 2: "r = Inl (Error ''Socket path is not a Unix domain socket.'') \<and> connect_times tr = []"
    by blast
  obtain r3 tr3 t3 where c: "runDaemonProxy absent_env ?p 0 = (r3, tr3, t3)"
    by (metis prod_cases3)
  obtain rv3 trv3 tv3 where c': "waitForSocketReady absent_env ?p 0 = (rv3, trv3, tv3)"
    by (metis prod_cases3)
  note Tc = C5_validate_then_connect [OF c c']
  have h: "(0::nat) < 2000 \<and> transport_start absent_env 0 = Some (ErrnoException ''EACCES'') \<and>
    code (ErrnoException ''EACCES'') \<noteq> Some ''ECONNREFUSED''"
    by (simp add: absent_env_def)
  from Tc [THEN conjunct2, THEN conjunct2, THEN conjunct2, rule_format, OF h]
  have 3: "startTransport_loop absent_env 2000 None 0 =
     (Inl (ErrnoException ''EACCES''), [ConnectCall 0], 0)"
    by (simp add: absent_env_def)
  from a have a': "runDaemonProxy late_socket_env ?p 0 =
     (Inr (),
      [StatCall ?p 0, TimerWait 200, StatCall ?p 200, TimerWait 200, StatCall ?p 400,
       TimerWait 200, StatCall ?p 600,
       ConnectCall 600, TimerWait 200, ConnectCall 800, TimerWait 200, ConnectCall 1000],
      1000)" by simp
  from a' 1 2 3 show ?thesis
    unfolding b fst_conv snd_conv by blast
qed


section \<open>The entry point restarts the daemon once\<close>

lemma connect_proxy_Some:
  "p \<noteq> [] \<Longrightarrow> connect_proxy proxy (Some p) =
     (case proxy p of None \<Rightarrow> Inr () | Some e \<Rightarrow> Inl e, [RunProxy p])"
  by (simp add: connect_proxy_def split: option.splits)

lemma connect_proxy_falsy:
  "falsy sp \<Longrightarrow> connect_proxy proxy sp =
     (Inl (Error ''Child daemon socket was not available from shell-server process.''), [])"
  by (auto simp: connect_proxy_def falsy_def)

lemma daemon_note_no_calls [simp]:
  "filter is_start (daemon_note argv) = []" "filter is_stop (daemon_note argv) = []"
  by (simp_all add: daemon_note_def)

lemma catch_exit_no_calls [simp]:
  "filter is_start (catch_exit e) = []" "filter is_stop (catch_exit e) = []"
  by (simp_all add: catch_exit_def)

lemma connect_proxy_no_calls:
  "connect_proxy proxy sp = (r, tr) \<Longrightarrow> filter is_start tr = [] \<and> filter is_stop tr = []"
  by (auto simp: connect_proxy_def split: option.splits if_splits)

lemma restart_calls:
  "restart M cwd sid w = (r, tr, w') \<Longrightarrow>
   length (filter is_start tr) \<le> 1 \<and> length (filter is_stop tr) \<le> 1"
  by (auto simp: restart_def split: prod.splits sum.splits)

lemma main_try_bounds:
  assumes "main_try M proxy argv cwd w = (r, tr, w')"
  shows "length (filter is_start tr) \<le> 2 \<and> length (filter is_stop tr) \<le> 1"
proof -
  obtain r1 w1 where s: "mgr_start M cwd True w = (r1, w1)" by (cases "mgr_start M cwd True w")
  show ?thesis
  proof (cases r1)
    case (Inl e)
    with assms s show ?thesis by (auto simp: main_try_def)
  next
    case (Inr started)
    obtain r2 w2 where g: "mgr_get M started w1 = (r2, w2)" by (cases "mgr_get M started w1")
    show ?thesis
    proof (cases r2)
      case (Inl e)
      with assms s g Inr show ?thesis by (auto simp: main_try_def)
    next
      case i: (Inr i)
      show ?thesis
      proof (cases "falsy (socketPath_of i)")
        case False
        obtain rc trc where c: "connect_proxy proxy (socketPath_of i) = (rc, trc)"
          by (cases "connect_proxy proxy (socketPath_of i)")
        from assms s g Inr i False c connect_proxy_no_calls [OF c] show ?thesis
          by (auto simp: main_try_def)
      next
        case True
        obtain rr trr wr where rs: "restart M cwd started w2 = (rr, trr, wr)"
          by (metis prod_cases3)
        note b = restart_calls [OF rs]
        show ?thesis
        proof (cases rr)
          case (Inl e)
          with assms s g Inr i True rs b show ?thesis by (auto simp: main_try_def)
        next
          case sp: (Inr sp)
          obtain rc trc where c: "connect_proxy proxy sp = (rc, trc)"
            by (cases "connect_proxy proxy sp")
          from assms s g Inr i True rs sp c b connect_proxy_no_calls [OF c] show ?thesis
            by (auto simp: main_try_def)
        qed
      qed
    qed
  qed
qed

lemma main_bounds:
  "length (filter is_start (fst (main M proxy argv cwd w))) \<le> 2 \<and>
   length (filter is_stop (fst (main M proxy argv cwd w))) \<le> 1"
proof -
  obtain r tr w' where t: "main_try M proxy argv cwd w = (r, tr, w')" by (metis prod_cases3)
  from main_try_bounds [OF t] t show ?thesis
    by (cases r) (auto simp: main_def)
qed


text \<open>
  Claim C7. Take a run of \<open>main\<close> without the version and help flags in which the
  first \<open>start\<close> (with \<open>allowExisting\<close> true) and the \<open>get\<close> of its instance
  resolve. When the descriptor carries a non-empty child socket path, the proxy runs on
  it and no stop or second start is made. When it does not, the instance is stopped with
  \<open>force\<close>; should the stop reject, \<open>main\<close> logs and exits with code 1; when the
  stop, the clean start (\<open>allowExisting\<close> false) and the \<open>get\<close> of the new instance
  resolve, the proxy runs on the new path if there is one, and otherwise the error is
  raised, logged, and the process exits with code 1, with no further start. No run of
  \<open>main\<close> makes more than two start calls or more than one stop call.
\<close>

theorem C7_force_stop_and_retry_once:
  assumes "''--version'' \<notin> set argv" "''-v'' \<notin> set argv"
    and "''--help'' \<notin> set argv" "''-h'' \<notin> set argv"
    and "mgr_start M cwd True w = (Inr started, w1)"
    and "mgr_get M started w1 = (Inr i, w2)"
  shows
   "(\<forall>p. socketPath_of i = Some p \<and> p \<noteq> [] \<longrightarrow>
       main M proxy argv cwd w =
         (daemon_note argv @ [Start cwd True, Get started] @ proxy_run proxy p, w2)) \<and>
    (falsy (socketPath_of i) \<longrightarrow>
       (\<exists>rest. fst (main M proxy argv cwd w) =
          daemon_note argv @ [Start cwd True, Get started, Stop started True] @ rest) \<and>
       (\<forall>e w3. mgr_stop M started True w2 = (Inl e, w3) \<longrightarrow>
          main M proxy argv cwd w =
            (daemon_note argv @ [Start cwd True, Get started, Stop started True] @ catch_exit e,
             w3)) \<and>
       (\<forall>w3 restarted w4 i' w5.
          mgr_stop M started True w2 = (Inr (), w3) \<and>
          mgr_start M cwd False w3 = (Inr restarted, w4) \<and>
          mgr_get M restarted w4 = (Inr i', w5) \<longrightarrow>
          (falsy (socketPath_of i') \<longrightarrow>
             main M proxy argv cwd w =
               (daemon_note argv @
                [Start cwd True, Get started, Stop started True, Start cwd False, Get restarted] @
                catch_exit
                  (Error ''Child daemon socket was not available from shell-server process.''),
                w5)) \<and>
          (\<forall>p. socketPath_of i' = Some p \<and> p \<noteq> [] \<longrightarrow>
             main M proxy argv cwd w =
               (daemon_note argv @
                [Start cwd True, Get started, Stop started True, Start cwd False, Get restarted] @
                proxy_run proxy p,
                w5)))) \<and>
    length (filter is_start (fst (main M proxy argv cwd w))) \<le> 2 \<and>
    length (filter is_stop (fst (main M proxy argv cwd w))) \<le> 1"
proof -
  note flags = assms(1-4)
  note first = assms(5,6)
  have usable: "main M proxy argv cwd w =
      (daemon_note argv @ [Start cwd True, Get started] @ proxy_run proxy p, w2)"
    if "socketPath_of i = Some p \<and> p \<noteq> []" for p
    using that flags first
    by (simp add: main_def main_try_def falsy_def connect_proxy_Some proxy_run_def
        split: option.splits)
  have stop_first: "\<exists>rest. fst (main M proxy argv cwd w) =
      daemon_note argv @ [Start cwd True, Get started, Stop started True] @ rest"
    if "falsy (socketPath_of i)"
  proof -
    obtain rr trr wr where rs: "restart M cwd started w2 = (rr, trr, wr)"
      by (metis prod_cases3)
    then obtain rest where trr: "trr = Stop started True # rest"
      by (auto simp: restart_def split: prod.splits sum.splits)
    show ?thesis
    proof (cases rr)
      case (Inl e)
      with that flags first rs trr show ?thesis
        by (simp add: main_def main_try_def)
    next
      case (Inr sp)
      obtain rc trc where c: "connect_proxy proxy sp = (rc, trc)"
        by (cases "connect_proxy proxy sp")
      with that flags first rs trr Inr show ?thesis
        by (cases rc) (simp_all add: main_def main_try_def)
    qed
  qed
  have stop_fails: "main M proxy argv cwd w =
      (daemon_note argv @ [Start cwd True, Get started, Stop started True] @ catch_exit e, w3)"
    if "falsy (socketPath_of i)" "mgr_stop M started True w2 = (Inl e, w3)" for e w3
    using that flags first
    by (simp add: main_def main_try_def restart_def)
  have second: "(falsy (socketPath_of i') \<longrightarrow>
             main M proxy argv cwd w =
               (daemon_note argv @
                [Start cwd True, Get started, Stop started True, Start cwd False, Get restarted] @
                catch_exit
                  (Error ''Child daemon socket was not available from shell-server process.''),
                w5)) \<and>
          (\<forall>p. socketPath_of i' = Some p \<and> p \<noteq> [] \<longrightarrow>
             main M proxy argv cwd w =
               (daemon_note argv @
                [Start cwd True, Get started, Stop started True, Start cwd False, Get restarted] @
                proxy_run proxy p,
                w5))"
    if "falsy (socketPath_of i)" "mgr_stop M started True w2 = (Inr (), w3) \<and>
          mgr_start M cwd False w3 = (Inr restarted, w4) \<and>
          mgr_get M restarted w4 = (Inr i', w5)" for w3 restarted w4 i' w5
  proof -
    from that have rs: "restart M cwd started w2 =
      (Inr (socketPath_of i'), [Stop started True, Start cwd False, Get restarted], w5)"
      by (simp add: restart_def)
    have a: "main M proxy argv cwd w =
               (daemon_note argv @
                [Start cwd True, Get started, Stop started True, Start cwd False, Get restarted] @
                catch_exit
                  (Error ''Child daemon socket was not available from shell-server process.''),
                w5)" if f: "falsy (socketPath_of i')"
      using \<open>falsy (socketPath_of i)\<close> flags first rs connect_proxy_falsy [OF f, of proxy]
      by (simp add: main_def main_try_def)
    have b: "main M proxy argv cwd w =
               (daemon_note argv @
                [Start cwd True, Get started, Stop started True, Start cwd False, Get restarted] @
                proxy_run proxy p,
                w5)" if p: "socketPath_of i' = Some p \<and> p \<noteq> []" for p
      using \<open>falsy (socketPath_of i)\<close> flags first rs p
      by (simp add: main_def main_try_def connect_proxy_Some proxy_run_def split: option.splits)
    from a b show ?thesis by blast
  qed
  note bounds = main_bounds [of M proxy argv cwd w]
  show ?thesis
  proof (intro conjI allI impI)
    fix p assume "socketPath_of i = Some p \<and> p \<noteq> []"
    then show "main M proxy argv cwd w =
         (daemon_note argv @ [Start cwd True, Get started] @ proxy_run proxy p, w2)"
      by (rule usable)
  next
    assume "falsy (socketPath_of i)"
    then show "\<exists>rest. fst (main M proxy argv cwd w) =
          daemon_note argv @ [Start cwd True, Get started, Stop started True] @ rest"
      by (rule stop_first)
  next
    fix e w3 assume "falsy (socketPath_of i)" "mgr_stop M started True w2 = (Inl e, w3)"
    then show "main M proxy argv cwd w =
            (daemon_note argv @ [Start cwd True, Get started, Stop started True] @ catch_exit e,
             w3)"
      by (rule stop_fails)
  next
    fix w3 restarted w4 i' w5
    assume f: "falsy (socketPath_of i)" and r: "mgr_stop M started True w2 = (Inr (), w3) \<and>
          mgr_start M cwd False w3 = (Inr restarted, w4) \<and>
          mgr_get M restarted w4 = (Inr i', w5)" and f': "falsy (socketPath_of i')"
    from second [OF f r] f' show "main M proxy argv cwd w =
               (daemon_note argv @
                [Start cwd True, Get started, Stop started True, Start cwd False, Get restarted] @
                catch_exit
                  (Error ''Child daemon socket was not available from shell-server process.''),
                w5)" by blast
  next
    fix w3 restarted w4 i' w5 p
    assume f: "falsy (socketPath_of i)" and r: "mgr_stop M started True w2 = (Inr (), w3) \<and>
          mgr_start M cwd False w3 = (Inr restarted, w4) \<and>
          mgr_get M restarted w4 = (Inr i', w5)" and p: "socketPath_of i' = Some p \<and> p \<noteq> []"
    from second [OF f r] p show "main M proxy argv cwd w =
               (daemon_note argv @
                [Start cwd True, Get started, Stop started True, Start cwd False, Get restarted] @
                proxy_run proxy p,
                w5)" by blast
  next
    from bounds show "length (filter is_start (fst (main M proxy argv cwd w))) \<le> 2" by simp
  next
    from bounds show "length (filter is_stop (fst (main M proxy argv cwd w))) \<le> 1" by simp
  qed
qed


theorem C7_force_stop_and_retry_once_witness:
  "main (example_manager 1) (\<lambda>p. None) [''--daemon''] ''/home'' 0 =
     ([MainLog (LogInfo ''`--daemon` is enabled (default behavior).''),
       Start ''/home'' True, Get ''s'', RunProxy ''/run/child.sock''], 1) \<and>
   main (example_manager 2) (\<lambda>p. None) [] ''/home'' 0 =
     ([Start ''/home'' True, Get ''s'', Stop ''s'' True, Start ''/home'' False, Get ''ss'',
       RunProxy ''/run/child.sock''], 2) \<and>
   main (example_manager 3) (\<lambda>p. None) [] ''/home'' 0 =
     ([Start ''/home'' True, Get ''s'', Stop ''s'' True, Start ''/home'' False, Get ''ss'',
       MainLog (LogError ''Failed to start shell-server process for MCP proxy''
         (Error ''Child daemon socket was not available from shell-server process.'')),
       Exit 1], 2)"
proof -
  let ?i = "\<lambda>b. Some \<lparr>childSocketPath = (if b then Some ''/run/child.sock'' else None)\<rparr>"
  have s1: "mgr_start (example_manager k) ''/home'' True 0 = (Inr ''s'', 1)" for k
    by (simp add: example_manager_def)
  have g1: "mgr_get (example_manager k) ''s'' 1 = (Inr (?i (k \<le> 1)), 1)" for k
    by (simp add: example_manager_def)
  have st: "mgr_stop (example_manager k) ''s'' True 1 = (Inr (), 1) \<and>
    mgr_start (example_manager k) ''/home'' False 1 = (Inr ''ss'', 2) \<and>
    mgr_get (example_manager k) ''ss'' 2 = (Inr (?i (k \<le> 2)), 2)" for k
    by (simp add: example_manager_def numeral_2_eq_2)
  have f0: "''--version'' \<notin> set []" "''-v'' \<notin> set []" "''--help'' \<notin> set []" "''-h'' \<notin> set []"
    by simp_all
  have f1: "''--version'' \<notin> set [''--daemon'']" "''-v'' \<notin> set [''--daemon'']"
    "''--help'' \<notin> set [''--daemon'']" "''-h'' \<notin> set [''--daemon'']"
    by simp_all
  note A = C7_force_stop_and_retry_once [OF f1 s1 [of 1] g1 [of 1], of "\<lambda>p. None"]
  have a: "main (example_manager 1) (\<lambda>p. None) [''--daemon''] ''/home'' 0 =
     (daemon_note [''--daemon''] @ [Start ''/home'' True, Get ''s''] @
      proxy_run (\<lambda>p. None) ''/run/child.sock'', 1)"
    using A [THEN conjunct1, rule_format, of "''/run/child.sock''"]
    by (simp add: socketPath_of_def)
  note B = C7_force_stop_and_retry_once [OF f0 s1 [of 2] g1 [of 2], of "\<lambda>p. None"]
  have fb: "falsy (socketPath_of (?i ((2::nat) \<le> 1)))"
    by (simp add: falsy_def socketPath_of_def)
  note B2 = B [THEN conjunct2, THEN conjunct1, rule_format, OF fb, THEN conjunct2, THEN conjunct2,
    rule_format, OF st [of 2]]
  have b: "main (example_manager 2) (\<lambda>p. None) [] ''/home'' 0 =
     (daemon_note [] @
      [Start ''/home'' True, Get ''s'', Stop ''s'' True, Start ''/home'' False, Get ''ss''] @
      proxy_run (\<lambda>p. None) ''/run/child.sock'', 2)"
    using B2 [THEN conjunct2, rule_format, of "''/run/child.sock''"]
    by (simp add: socketPath_of_def)
  note C = C7_force_stop_and_retry_once [OF f0 s1 [of 3] g1 [of 3], of "\<lambda>p. None"]
  have fc: "falsy (socketPath_of (?i ((3::nat) \<le> 1)))"
    by (simp add: falsy_def socketPath_of_def)
  have fc': "falsy (socketPath_of (?i ((3::nat) \<le> 2)))"
    by (simp add: falsy_def socketPath_of_def)
  note C2 = C [THEN conjunct2, THEN conjunct1, rule_format, OF fc, THEN conjunct2, THEN conjunct2,
    rule_format, OF st [of 3]]
  have c: "main (example_manager 3) (\<lambda>p. None) [] ''/home'' 0 =
     (daemon_note [] @
      [Start ''/home'' True, Get ''s'', Stop ''s'' True, Start ''/home'' False, Get ''ss''] @
      catch_exit (Error ''Child daemon socket was not available from shell-server process.''), 2)"
    using C2 [THEN conjunct1, rule_format, OF fc'] .
  from a b c show ?thesis
    by (simp add: daemon_note_def proxy_run_def catch_exit_def)
qed

section \<open>The listener: parent directory, stale socket, listen, chmod\<close>




















end
